theory Spec2Isabelle
  imports Main "HOL-Library.Char_ord" "HOL-Library.List_Lexorder"
begin

section \<open>Python strings\<close>

text \<open>
  A Python \<open>str\<close> is a sequence of code points. It is modelled as a \<open>string\<close>, each
  \<open>char\<close> read as the code point of the same number, so the model covers the texts whose
  code points lie in U+0000 .. U+00FF. The built-in methods the bot calls are written out
  for that range.
\<close>

text \<open>\<open>str.isspace\<close> on one code point below 256: TAB, LF, VT, FF, CR, FS, GS, RS, US,
  SPACE, NEL and NBSP.\<close>

definition whitespace_chars :: "char list" where
  "whitespace_chars =
     [CHR 0x09, CHR 0x0A, CHR 0x0B, CHR 0x0C, CHR 0x0D, CHR 0x1C, CHR 0x1D, CHR 0x1E,
      CHR 0x1F, CHR 0x20, CHR 0x85, CHR 0xA0]"

definition py_isspace :: "char \<Rightarrow> bool" where
  "py_isspace c = (c \<in> set whitespace_chars)"

text \<open>\<open>s.startswith(p)\<close>: the slice of \<open>s\<close> of the length of \<open>p\<close> equals \<open>p\<close>.\<close>

definition py_startswith :: "string \<Rightarrow> string \<Rightarrow> bool" where
  "py_startswith s p = (take (length p) s = p)"

text \<open>\<open>s.strip()\<close>: leading whitespace is removed, then trailing whitespace.\<close>

definition py_lstrip :: "string \<Rightarrow> string" where
  "py_lstrip s = dropWhile py_isspace s"

definition py_rstrip :: "string \<Rightarrow> string" where
  "py_rstrip s = rev (dropWhile py_isspace (rev s))"

definition py_strip :: "string \<Rightarrow> string" where
  "py_strip s = py_rstrip (py_lstrip s)"

text \<open>
  \<open>s.split()\<close> with no separator: one scan from the left; \<open>cur\<close> is the word being
  read (reversed), \<open>acc\<close> the finished words (reversed). A run of whitespace ends the
  current word; empty words are never produced.
\<close>

definition flush_word :: "string \<Rightarrow> string list \<Rightarrow> string list" where
  "flush_word cur acc = (if cur = [] then acc else rev cur # acc)"

fun split_scan :: "string \<Rightarrow> string \<Rightarrow> string list \<Rightarrow> string list" where
  "split_scan [] cur acc = rev (flush_word cur acc)"
| "split_scan (c # cs) cur acc =
     (if py_isspace c then split_scan cs [] (flush_word cur acc)
      else split_scan cs (c # cur) acc)"

definition py_split :: "string \<Rightarrow> string list" where
  "py_split s = split_scan s [] []"

text \<open>\<open>str.lower\<close> on code points below 256: \<open>A\<close>..\<open>Z\<close> and U+00C0 .. U+00DE
  (without the multiplication sign U+00D7) move up by 32; every other code point stays.\<close>

definition is_upper_char :: "char \<Rightarrow> bool" where
  "is_upper_char c =
     (let n = (of_char c :: nat)
      in (65 \<le> n \<and> n \<le> 90) \<or> (192 \<le> n \<and> n \<le> 222 \<and> n \<noteq> 215))"

definition lower_char :: "char \<Rightarrow> char" where
  "lower_char c = (if is_upper_char c then char_of ((of_char c :: nat) + 32) else c)"

definition py_lower :: "string \<Rightarrow> string" where
  "py_lower s = map lower_char s"

text \<open>\<open>sub in s\<close> for strings: \<open>sub\<close> occurs in \<open>s\<close> as a contiguous slice.\<close>

fun py_in :: "string \<Rightarrow> string \<Rightarrow> bool" where
  "py_in sub [] = (sub = [])"
| "py_in sub (c # cs) = (py_startswith (c # cs) sub \<or> py_in sub cs)"

text \<open>\<open>sep.join(items)\<close>.\<close>

fun py_join :: "string \<Rightarrow> string list \<Rightarrow> string" where
  "py_join sep [] = []"
| "py_join sep [x] = x"
| "py_join sep (x # y # ys) = x @ sep @ py_join sep (y # ys)"

datatype py_error = ValueError | IndexError | KeyError

section \<open>Messages and the command parser (bot/chat.py, bot/filters.py)\<close>

record ChatMessage =
  text_str :: string
  chat_name :: string
  sender :: "string option"
  from_me :: bool

text \<open>The constructor call \<open>ChatMessage(text=..., from_me=...)\<close>, the other fields at
  their defaults.\<close>

definition ChatMessage_new :: "string \<Rightarrow> bool \<Rightarrow> ChatMessage" where
  "ChatMessage_new txt fm = \<lparr>text_str = txt, chat_name = [], sender = None, from_me = fm\<rparr>"

record ParsedCommand =
  name :: string
  args :: "string list"

record ParsedMessage =
  is_command :: bool
  command :: "ParsedCommand option"
  query :: "string option"

text \<open>\<open>MessageFilter.__init__\<close>: the filter holds its prefix; an empty prefix is refused.\<close>

definition MessageFilter_init :: "string \<Rightarrow> py_error + string" where
  "MessageFilter_init prefix = (if prefix = [] then Inl ValueError else Inr prefix)"

text \<open>\<open>MessageFilter.parse\<close>. \<open>parts[0]\<close> raises \<open>IndexError\<close> on an empty list.\<close>

definition parse :: "string \<Rightarrow> ChatMessage \<Rightarrow> py_error + ParsedMessage option" where
  "parse prefix message =
     (if \<not> py_startswith (text_str message) prefix then Inr None
      else
        let payload = py_strip (drop (length prefix) (text_str message))
        in if payload = [] then Inr None
           else
             let parts = py_split payload
             in (case parts of
                   [] \<Rightarrow> Inl IndexError
                 | first_word # rest \<Rightarrow>
                     if py_startswith first_word ''-''
                     then
                       let command_name = py_lower (drop 1 first_word);
                           args = rest
                       in Inr (Some \<lparr>is_command = True,
                                     command = Some \<lparr>name = command_name, args = args\<rparr>,
                                     query = None\<rparr>)
                     else Inr (Some \<lparr>is_command = False, command = None,
                                     query = Some payload\<rparr>)))"

text \<open>
  The parser of the specification, written from its words: a message that does not start
  with the prefix literal is not for the bot; the prefix is stripped and the rest trimmed;
  an empty payload is not for the bot; the payload is split on whitespace; a first token
  that starts with \<open>-\<close> gives a command (the token without that character, lower-cased,
  and the remaining tokens), any other first token gives a query holding the whole
  trimmed payload.
\<close>

datatype parsed = CommandVariant ParsedCommand | QueryVariant string

fun starts_with :: "string \<Rightarrow> string \<Rightarrow> bool" where
  "starts_with s [] = True"
| "starts_with [] (p # ps) = False"
| "starts_with (c # cs) (p # ps) = (c = p \<and> starts_with cs ps)"

definition trim :: "string \<Rightarrow> string" where
  "trim s = dropWhile py_isspace (rev (dropWhile py_isspace (rev s)))"

function tokens :: "string \<Rightarrow> string list" where
  "tokens s =
     (case dropWhile py_isspace s of
        [] \<Rightarrow> []
      | c # cs \<Rightarrow>
          (c # takeWhile (\<lambda>x. \<not> py_isspace x) cs) #
          tokens (dropWhile (\<lambda>x. \<not> py_isspace x) cs))"
  by pat_completeness auto
termination
proof (relation "measure length")
  show "wf (measure length)" by simp
next
  fix s :: string and c cs
  assume "dropWhile py_isspace s = c # cs"
  then have "length s \<ge> Suc (length cs)"
    by (metis length_dropWhile_le length_Cons)
  moreover have "length (dropWhile (\<lambda>x. \<not> py_isspace x) cs) \<le> length cs"
    by (rule length_dropWhile_le)
  ultimately show "(dropWhile (\<lambda>x. \<not> py_isspace x) cs, s) \<in> measure length"
    by simp
qed

declare tokens.simps [simp del]

definition parse_spec :: "string \<Rightarrow> string \<Rightarrow> parsed option" where
  "parse_spec prefix txt =
     (if \<not> starts_with txt prefix then None
      else
        let payload = trim (drop (length prefix) txt)
        in if payload = [] then None
           else (case tokens payload of
                   [] \<Rightarrow> None
                 | t # ts \<Rightarrow>
                     (case t of
                        [] \<Rightarrow> Some (QueryVariant payload)
                      | d # n \<Rightarrow>
                          if d = CHR ''-''
                          then Some (CommandVariant \<lparr>name = py_lower n, args = ts\<rparr>)
                          else Some (QueryVariant payload))))"

text \<open>The record the code builds for each variant.\<close>

fun as_message :: "parsed \<Rightarrow> ParsedMessage" where
  "as_message (CommandVariant c) = \<lparr>is_command = True, command = Some c, query = None\<rparr>"
| "as_message (QueryVariant q) = \<lparr>is_command = False, command = None, query = Some q\<rparr>"

section \<open>The command dispatcher (bot/handlers.py)\<close>

text \<open>The dispatch table is a dictionary; it is kept as the list of its items.\<close>

record CommandHandler =
  prefix :: string
  commands :: "(string \<times> string) list"

definition CommandHandler_init :: "string \<Rightarrow> CommandHandler" where
  "CommandHandler_init p = \<lparr>prefix = p, commands = [(''ping'', ''pong'')]\<rparr>"

definition newline :: string where
  "newline = [CHR 0x0A]"

definition quote :: string where
  "quote = [CHR 0x27]"

definition help_line :: "CommandHandler \<Rightarrow> string \<Rightarrow> string" where
  "help_line self n = ''- '' @ prefix self @ '' '' @ n"

definition known_commands :: "CommandHandler \<Rightarrow> string list" where
  "known_commands self =
     sorted_list_of_set (set (map fst (commands self)) \<union> {''help''})"

definition help_message :: "CommandHandler \<Rightarrow> string" where
  "help_message self =
     (let items = py_join newline (map (help_line self) (known_commands self))
      in ''Available commands:'' @ newline @ items)"

definition unknown_reply :: "CommandHandler \<Rightarrow> string \<Rightarrow> string" where
  "unknown_reply self n =
     ''Unknown command '' @ quote @ n @ quote @ ''. Try '' @ quote @ prefix self @
     '' help'' @ quote @ ''.''"

text \<open>\<open>CommandHandler.handle\<close>. \<open>self._commands[name]\<close> raises \<open>KeyError\<close> on a
  missing key.\<close>

definition handle :: "CommandHandler \<Rightarrow> ParsedCommand \<Rightarrow> py_error + string" where
  "handle self cmd =
     (if name cmd = ''help'' then Inr (help_message self)
      else if name cmd \<in> set (map fst (commands self))
      then (case map_of (commands self) (name cmd) of
              None \<Rightarrow> Inl KeyError
            | Some reply \<Rightarrow> Inr reply)
      else Inr (unknown_reply self (name cmd)))"

section \<open>Reading the conversation surface (bot/chat.py)\<close>

text \<open>
  The page is driven through Playwright, which is outside the repository. Each call to it
  either returns or raises; what it returns is given by a snapshot of the page. The two
  exceptions are both subclasses of \<open>Exception\<close>: the timeout of a bounded wait, and any
  other fault of the automation layer.
\<close>

datatype exn = PlaywrightTimeoutError | PlaywrightError

datatype 'a outcome = Returns 'a | Raises exn

text \<open>
  A bubble answers \<open>get_attribute("class")\<close> and, for a text selector, lists the inner
  texts of the elements the selector matches in it (each read may itself fail).
\<close>

record bubble =
  class_attr :: "string option outcome"
  text_els :: "string \<Rightarrow> string outcome list outcome"

record container =
  bubbles :: "bubble list outcome"

text \<open>
  A page snapshot: the elements matching the conversation selector, those matching the
  fallback region selector, and the scrollable areas (each with the result of the scroll
  script run on it).
\<close>

record page =
  conversation :: "container list outcome"
  message_region :: "container list outcome"
  scrollable :: "unit outcome list outcome"

definition text_selectors :: "string list" where
  "text_selectors =
     [''span.selectable-text'', ''span[data-testid='' @ [CHR 0x27] @ ''selectable-text'' @
        [CHR 0x27] @ '']'', ''span.copyable-text'', ''span[data-lexical-text]'']"

text \<open>\<open>locator(...).first\<close> followed by \<open>count() == 0\<close>, for the conversation selector
  and then for the fallback region. A locator object is always truthy.\<close>

definition resolve_container :: "page \<Rightarrow> exn + container option" where
  "resolve_container p =
     (case conversation p of
        Raises e \<Rightarrow> Inl e
      | Returns (c # _) \<Rightarrow> Inr (Some c)
      | Returns [] \<Rightarrow>
          (case message_region p of
             Raises e \<Rightarrow> Inl e
           | Returns [] \<Rightarrow> Inr None
           | Returns (c # _) \<Rightarrow> Inr (Some c)))"

text \<open>The scroll to the end of the list sits in its own \<open>try\<close> with a bare \<open>except\<close>:
  whatever happens there, execution goes on.\<close>

definition scroll_to_bottom :: "page \<Rightarrow> exn + unit" where
  "scroll_to_bottom p =
     (case scrollable p of
        Raises e \<Rightarrow> Inr ()
      | Returns [] \<Rightarrow> Inr ()
      | Returns (ev # _) \<Rightarrow> (case ev of Raises e \<Rightarrow> Inr () | Returns u \<Rightarrow> Inr ()))"

text \<open>
  One pass through the loop over the text selectors inside the last bubble: the text that
  the selector \<open>ts\<close> yields, if it yields one that is kept.
\<close>

definition candidate_text :: "bubble \<Rightarrow> string \<Rightarrow> exn + string option" where
  "candidate_text last_bubble ts =
     (case text_els last_bubble ts of
        Raises e \<Rightarrow> Inl e
      | Returns [] \<Rightarrow> Inr None
      | Returns (text_el # _) \<Rightarrow>
          (case text_el of
             Raises e \<Rightarrow> Inl e
           | Returns inner \<Rightarrow>
               let text = py_strip inner
               in if text \<noteq> [] \<and> length text > 1 then Inr (Some text) else Inr None))"

fun find_text :: "bubble \<Rightarrow> bool \<Rightarrow> string list \<Rightarrow> exn + (string \<times> bool) option" where
  "find_text last_bubble is_from_me [] = Inr None"
| "find_text last_bubble is_from_me (ts # rest) =
     (case candidate_text last_bubble ts of
        Inl e \<Rightarrow> Inl e
      | Inr (Some text) \<Rightarrow> Inr (Some (text, is_from_me))
      | Inr None \<Rightarrow> find_text last_bubble is_from_me rest)"

text \<open>The body of the \<open>try\<close> of \<open>_last_message_text\<close>; \<open>Inl\<close> is an exception leaving
  it.\<close>

definition last_message_text_try :: "page \<Rightarrow> exn + (string \<times> bool) option" where
  "last_message_text_try p =
     (case resolve_container p of
        Inl e \<Rightarrow> Inl e
      | Inr None \<Rightarrow> Inr None
      | Inr (Some cont) \<Rightarrow>
          (case scroll_to_bottom p of
             Inl e \<Rightarrow> Inl e
           | Inr _ \<Rightarrow>
               (case bubbles cont of
                  Raises e \<Rightarrow> Inl e
                | Returns bs \<Rightarrow>
                    let count = length bs
                    in if count = 0 then Inr None
                       else
                         let last_bubble = bs ! (count - 1)
                         in (case class_attr last_bubble of
                               Raises e \<Rightarrow> Inl e
                             | Returns attr \<Rightarrow>
                                 let html_class =
                                       (case attr of
                                          None \<Rightarrow> []
                                        | Some v \<Rightarrow> if v = [] then [] else v);
                                     is_from_me = py_in ''message-out'' html_class
                                 in find_text last_bubble is_from_me text_selectors))))"

text \<open>\<open>_last_message_text\<close>: \<open>except Exception\<close> around the whole body, then
  \<open>return None\<close>.\<close>

definition last_message_text :: "page \<Rightarrow> (string \<times> bool) option" where
  "last_message_text p =
     (case last_message_text_try p of
        Inl exc \<Rightarrow> None
      | Inr result \<Rightarrow> result)"

section \<open>The deduplication cache and the scan cycle (bot/chat.py)\<close>

text \<open>
  \<open>ChatService\<close> keeps the dictionary \<open>_last_seen\<close>. The field \<open>reads\<close> is not in the
  class: it records, in order, the page snapshot of every call of \<open>_last_message_text\<close>,
  so that the number of reads of a cycle can be stated.
\<close>

record ChatService =
  last_seen :: "string \<rightharpoonup> string"
  reads :: "page list"

definition ChatService_init :: ChatService where
  "ChatService_init = \<lparr>last_seen = Map.empty, reads = []\<rparr>"

definition push_if_new ::
  "ChatService \<Rightarrow> ChatMessage list \<Rightarrow> string \<Rightarrow> bool \<Rightarrow> ChatService \<times> ChatMessage list" where
  "push_if_new self bucket text from_me_flag =
     (if last_seen self ''last'' = Some text then (self, bucket)
      else (self\<lparr>last_seen := (last_seen self)(''last'' \<mapsto> text)\<rparr>,
            bucket @ [ChatMessage_new text from_me_flag]))"

definition read_last :: "ChatService \<Rightarrow> page \<Rightarrow> (string \<times> bool) option \<times> ChatService" where
  "read_last self p = (last_message_text p, self\<lparr>reads := reads self @ [p]\<rparr>)"

definition collect_active_chat_message ::
  "ChatService \<Rightarrow> ChatMessage list \<Rightarrow> page \<Rightarrow> ChatService \<times> ChatMessage list" where
  "collect_active_chat_message self bucket p =
     (case read_last self p of
        (None, self1) \<Rightarrow> (self1, bucket)
      | (Some (text, fm), self1) \<Rightarrow> push_if_new self1 bucket text fm)"

text \<open>
  An unread chat row, with what the page does while the row is processed: the click, the
  scroll script, the bounded wait for a bubble, the three counts that are logged, and the
  page snapshot that the read then sees.
\<close>

record chat =
  click :: "unit outcome"
  scroll_window :: "unit outcome"
  wait_bubble :: "unit outcome"
  count_in :: "nat outcome"
  count_out :: "nat outcome"
  count_lexical :: "nat outcome"
  view :: page

text \<open>The body of the \<open>try\<close> of one iteration of the loop over the unread chats.\<close>

definition process_chat ::
  "ChatService \<Rightarrow> ChatMessage list \<Rightarrow> chat \<Rightarrow> exn + ChatService \<times> ChatMessage list" where
  "process_chat self messages c =
     (case click c of
        Raises e \<Rightarrow> Inl e
      | Returns _ \<Rightarrow>
          (case (case scroll_window c of Raises e \<Rightarrow> () | Returns u \<Rightarrow> ()) of
             _ \<Rightarrow>
               (case wait_bubble c of
                  Raises PlaywrightError \<Rightarrow> Inl PlaywrightError
                | _ \<Rightarrow>
                    (case count_in c of
                       Raises e \<Rightarrow> Inl e
                     | Returns _ \<Rightarrow>
                         (case count_out c of
                            Raises e \<Rightarrow> Inl e
                          | Returns _ \<Rightarrow>
                              (case count_lexical c of
                                 Raises e \<Rightarrow> Inl e
                               | Returns _ \<Rightarrow>
                                   (case read_last self (view c) of
                                      (None, self1) \<Rightarrow> Inr (self1, messages)
                                    | (Some (text, fm), self1) \<Rightarrow>
                                        Inr (push_if_new self1 messages text fm))))))))"

text \<open>The loop: an exception leaving the body is logged and the next chat is taken.\<close>

fun scan_chats ::
  "ChatService \<Rightarrow> ChatMessage list \<Rightarrow> chat list \<Rightarrow> ChatService \<times> ChatMessage list" where
  "scan_chats self messages [] = (self, messages)"
| "scan_chats self messages (c # cs) =
     (case process_chat self messages c of
        Inl e \<Rightarrow> scan_chats self messages cs
      | Inr (self1, messages1) \<Rightarrow> scan_chats self1 messages1 cs)"

text \<open>What the page shows during one cycle: the bounded wait for an unread badge, the
  unread rows, and the snapshot seen by the read of the active chat at the end.\<close>

record surface =
  unread_wait :: "unit outcome"
  unread_rows :: "chat list outcome"
  active_view :: page

definition collect_unread_chats :: "surface \<Rightarrow> exn + chat list" where
  "collect_unread_chats s =
     (case unread_wait s of
        Raises PlaywrightTimeoutError \<Rightarrow> Inr []
      | Raises PlaywrightError \<Rightarrow> Inl PlaywrightError
      | Returns _ \<Rightarrow>
          (case unread_rows s of
             Raises e \<Rightarrow> Inl e
           | Returns chats \<Rightarrow> Inr chats))"

definition poll_new_messages ::
  "ChatService \<Rightarrow> surface \<Rightarrow> exn + ChatMessage list \<times> ChatService" where
  "poll_new_messages self s =
     (case collect_unread_chats s of
        Inl e \<Rightarrow> Inl e
      | Inr unread_chats \<Rightarrow>
          if unread_chats = []
          then (case collect_active_chat_message self [] (active_view s) of
                  (self1, messages) \<Rightarrow> Inr (messages, self1))
          else (case scan_chats self [] unread_chats of
                  (self1, messages) \<Rightarrow>
                    (case collect_active_chat_message self1 messages (active_view s) of
                       (self2, messages2) \<Rightarrow> Inr (messages2, self2))))"

text \<open>
  A sequence of successful reads, cycle by cycle: every cycle starts with an empty bucket
  and pushes its reads in order; the cache is carried from one cycle to the next. The
  result is the bucket of every cycle.
\<close>

fun push_reads ::
  "ChatService \<Rightarrow> ChatMessage list \<Rightarrow> (string \<times> bool) list \<Rightarrow> ChatService \<times> ChatMessage list" where
  "push_reads self bucket [] = (self, bucket)"
| "push_reads self bucket ((text, fm) # rs) =
     (case push_if_new self bucket text fm of
        (self1, bucket1) \<Rightarrow> push_reads self1 bucket1 rs)"

fun run_cycles ::
  "ChatService \<Rightarrow> (string \<times> bool) list list \<Rightarrow> ChatMessage list list \<times> ChatService" where
  "run_cycles self [] = ([], self)"
| "run_cycles self (cycle # cycles) =
     (case push_reads self [] cycle of
        (self1, bucket) \<Rightarrow>
          (case run_cycles self1 cycles of
             (buckets, self2) \<Rightarrow> (bucket # buckets, self2)))"

definition forwarded_texts :: "ChatMessage list list \<Rightarrow> string list" where
  "forwarded_texts buckets = map text_str (concat buckets)"

section \<open>The login wait (bot/session.py)\<close>

text \<open>
  Time values are the Python floats that \<open>time.time()\<close> returns and that the timeout
  and the poll interval are given as. The code only compares them and adds the timeout to
  one of them, so the type of time values is left open: it has an order and an addition,
  and no law of either is assumed.

  The outside is given by what its calls answer. \<open>clock scr i\<close> is the value of the call
  of \<open>time.time()\<close> that comes after \<open>i\<close> earlier ones; \<open>chat_list scr i\<close> and
  \<open>qr_code scr i\<close> are the answers of the bounded wait for the chat list, and for the QR
  code, that comes after \<open>i\<close> earlier ones: it returns, or raises the timeout error, or
  raises another fault. The calls made are recorded in order, with the timeout of a wait
  in milliseconds and the length of a sleep.
\<close>

datatype 't call =
  Bring_to_front
| Time 't
| Wait_chat_list nat
| Wait_qr_code nat
| Sleep 't

record 't screen =
  bring_to_front :: "unit outcome"
  clock :: "nat \<Rightarrow> 't"
  chat_list :: "nat \<Rightarrow> unit outcome"
  qr_code :: "nat \<Rightarrow> unit outcome"

record 't SessionManager =
  poll_interval :: 't
  login_timeout :: 't

text \<open>The two \<open>RuntimeError\<close>s of the module, with what their messages carry (the poll
  count and the configured timeout), and an exception of the page passing through.\<close>

datatype 't session_error =
  LoginTimedOut nat 't
| SessionNotEstablished
| SurfaceFault exn

text \<open>\<open>is_logged_in\<close> and \<open>_qr_visible\<close>, as the call after \<open>i\<close> earlier ones: only
  the timeout error is caught.\<close>

definition is_logged_in :: "'t screen \<Rightarrow> nat \<Rightarrow> exn + bool" where
  "is_logged_in scr i =
     (case chat_list scr i of
        Returns _ \<Rightarrow> Inr True
      | Raises PlaywrightTimeoutError \<Rightarrow> Inr False
      | Raises PlaywrightError \<Rightarrow> Inl PlaywrightError)"

definition qr_visible :: "'t screen \<Rightarrow> nat \<Rightarrow> exn + bool" where
  "qr_visible scr i =
     (case qr_code scr i of
        Returns _ \<Rightarrow> Inr True
      | Raises PlaywrightTimeoutError \<Rightarrow> Inr False
      | Raises PlaywrightError \<Rightarrow> Inl PlaywrightError)"

text \<open>
  One pass through the body of the \<open>while\<close> loop of \<open>_wait_for_login\<close>, with
  \<open>poll_count\<close> polls done before (each of them made one wait for the chat list and one
  for the QR code): the calls it makes, and whether the function is left (with the error
  raised or the number of polls of a successful login) or the loop goes on.
\<close>

datatype 't poll_result = Finished "'t session_error + nat" | Again

definition poll_once ::
  "'t SessionManager \<Rightarrow> 't screen \<Rightarrow> nat \<Rightarrow> 't call list \<times> 't poll_result" where
  "poll_once self scr poll_count =
     (case is_logged_in scr poll_count of
        Inl e \<Rightarrow> ([Wait_chat_list 3000], Finished (Inl (SurfaceFault e)))
      | Inr True \<Rightarrow> ([Wait_chat_list 3000], Finished (Inr (poll_count + 1)))
      | Inr False \<Rightarrow>
          (case qr_visible scr poll_count of
             Inl e \<Rightarrow>
               ([Wait_chat_list 3000, Wait_qr_code 1000], Finished (Inl (SurfaceFault e)))
           | Inr _ \<Rightarrow>
               ([Wait_chat_list 3000, Wait_qr_code 1000, Sleep (poll_interval self)], Again)))"

text \<open>
  The loop, with \<open>poll_count\<close> polls done and \<open>calls\<close> made so far; the deadline was
  computed from the first value of the clock, so the test of the loop reads the value
  after \<open>poll_count + 1\<close> earlier ones. A clock that stays before the deadline for ever
  keeps the loop running: then there is no result.
\<close>

partial_function (option) wait_loop ::
  "'t::ord SessionManager \<Rightarrow> 't screen \<Rightarrow> 't \<Rightarrow> nat \<Rightarrow> 't call list \<Rightarrow>
     ('t call list \<times> ('t session_error + nat)) option" where
  "wait_loop self scr deadline poll_count calls =
     (if clock scr (Suc poll_count) < deadline
      then (case snd (poll_once self scr poll_count) of
              Finished r \<Rightarrow>
                Some (calls @ Time (clock scr (Suc poll_count)) #
                        fst (poll_once self scr poll_count), r)
            | Again \<Rightarrow>
                wait_loop self scr deadline (Suc poll_count)
                  (calls @ Time (clock scr (Suc poll_count)) #
                     fst (poll_once self scr poll_count)))
      else Some (calls @ [Time (clock scr (Suc poll_count))],
                 Inl (LoginTimedOut poll_count (login_timeout self))))"

declare wait_loop.simps [code]

definition wait_for_login ::
  "'t::{ord,plus} SessionManager \<Rightarrow> 't screen \<Rightarrow> 't call list \<Rightarrow>
     ('t call list \<times> ('t session_error + nat)) option" where
  "wait_for_login self scr calls =
     wait_loop self scr (clock scr 0 + login_timeout self) 0 (calls @ [Time (clock scr 0)])"

text \<open>\<open>ensure_session\<close>; the wait for the chat list after the loop comes after one
  such wait per poll.\<close>

definition ensure_session ::
  "'t::{ord,plus} SessionManager \<Rightarrow> 't screen \<Rightarrow>
     ('t call list \<times> ('t session_error + unit)) option" where
  "ensure_session self scr =
     (case bring_to_front scr of
        Raises e \<Rightarrow> Some ([Bring_to_front], Inl (SurfaceFault e))
      | Returns _ \<Rightarrow>
          (case wait_for_login self scr [Bring_to_front] of
             None \<Rightarrow> None
           | Some (calls, Inl err) \<Rightarrow> Some (calls, Inl err)
           | Some (calls, Inr polls) \<Rightarrow>
               (case is_logged_in scr polls of
                  Inl e \<Rightarrow> Some (calls @ [Wait_chat_list 3000], Inl (SurfaceFault e))
                | Inr True \<Rightarrow> Some (calls @ [Wait_chat_list 3000], Inr ())
                | Inr False \<Rightarrow> Some (calls @ [Wait_chat_list 3000], Inl SessionNotEstablished))))"

section \<open>The AI query path (main.py)\<close>

text \<open>
  The completion backend is outside the repository: a request either gives a response,
  whose text may be missing, or raises an exception \<open>e\<close>, of which the code reads
  \<open>str(e)\<close>. The client is created only for a non-empty key. The list of requests sent to
  the backend is carried along.
\<close>

datatype completion = Response "string option" | Failure string

definition make_ai_client :: "string option \<Rightarrow> string option" where
  "make_ai_client google_api_key =
     (case google_api_key of
        None \<Rightarrow> None
      | Some k \<Rightarrow> if k = [] then None else Some k)"

text \<open>The body of the \<open>try\<close> of \<open>call_ai\<close>; \<open>Inl\<close> is the text of the exception
  leaving it.\<close>

definition call_ai_try :: "(string \<Rightarrow> completion) \<Rightarrow> string \<Rightarrow> string + string" where
  "call_ai_try backend q =
     (case backend q of
        Failure e \<Rightarrow> Inl e
      | Response txt \<Rightarrow>
          Inr (case txt of
                 None \<Rightarrow> ''No response from AI.''
               | Some v \<Rightarrow> if v = [] then ''No response from AI.'' else v))"

definition call_ai ::
  "string option \<Rightarrow> (string \<Rightarrow> completion) \<Rightarrow> string list \<Rightarrow> string \<Rightarrow> string \<times> string list" where
  "call_ai ai_client backend sent q =
     (case ai_client of
        None \<Rightarrow> (''Error: AI client not configured (missing API key).'', sent)
      | Some _ \<Rightarrow>
          (case call_ai_try backend q of
             Inr reply \<Rightarrow> (reply, sent @ [q])
           | Inl e \<Rightarrow>
               if py_in ''429'' e
               then (''Lo siento, he alcanzado mi l'' @ [CHR 0xED] @
                     ''mite de mensajes por ahora. Por favor, int'' @ [CHR 0xE9] @
                     ''ntalo de nuevo en unos segundos.'', sent @ [q])
               else (''Sorry, I encountered an error processing that: '' @ e, sent @ [q])))"

section \<open>Properties of the string functions\<close>

lemma startswith_eq: "py_startswith s p = starts_with s p"
  by (induction s p rule: starts_with.induct) (auto simp: py_startswith_def)

lemma rstrip_Cons:
  "py_rstrip (x # xs) = (if py_isspace x \<and> (\<forall>y \<in> set xs. py_isspace y) then [] else x # py_rstrip xs)"
  by (auto simp: py_rstrip_def dropWhile_append)

lemma strip_commute: "py_rstrip (py_lstrip s) = py_lstrip (py_rstrip s)"
proof (induction s)
  case Nil
  show ?case by (simp add: py_lstrip_def py_rstrip_def)
next
  case (Cons x xs)
  show ?case
  proof (cases "py_isspace x")
    case True
    have l: "py_lstrip (x # xs) = py_lstrip xs" using True by (simp add: py_lstrip_def)
    show ?thesis
    proof (cases "\<forall>y \<in> set xs. py_isspace y")
      case all: True
      then have "py_lstrip xs = []" by (simp add: py_lstrip_def)
      with all True show ?thesis by (simp add: l rstrip_Cons) (simp add: py_lstrip_def py_rstrip_def)
    next
      case False
      with True have "py_rstrip (x # xs) = x # py_rstrip xs" by (simp add: rstrip_Cons)
      with True Cons show ?thesis by (simp add: l) (simp add: py_lstrip_def)
    qed
  next
    case False
    then show ?thesis by (simp add: rstrip_Cons) (simp add: py_lstrip_def rstrip_Cons)
  qed
qed

lemma strip_eq_trim: "py_strip s = trim s"
  unfolding py_strip_def strip_commute unfolding py_lstrip_def py_rstrip_def trim_def ..

lemma strip_hd: "py_strip s \<noteq> [] \<Longrightarrow> \<not> py_isspace (hd (py_strip s))"
  unfolding strip_eq_trim trim_def by (metis hd_dropWhile)

lemma tokens_space: "py_isspace c \<Longrightarrow> tokens (c # cs) = tokens cs"
  by (subst tokens.simps, subst (2) tokens.simps) simp

lemma tokens_Nil: "tokens [] = []"
  by (subst tokens.simps) simp

lemma tokens_word:
  assumes "w \<noteq> []" "\<forall>c \<in> set w. \<not> py_isspace c"
  shows "tokens (w @ s) = (w @ takeWhile (\<lambda>x. \<not> py_isspace x) s) # tokens (dropWhile (\<lambda>x. \<not> py_isspace x) s)"
proof -
  obtain c cs where w: "w = c # cs" using assms(1) by (cases w) auto
  have 1: "dropWhile py_isspace (w @ s) = c # (cs @ s)" using assms(2) w by simp
  have 2: "takeWhile (\<lambda>x. \<not> py_isspace x) (cs @ s) = cs @ takeWhile (\<lambda>x. \<not> py_isspace x) s"
    using assms(2) w by (simp add: takeWhile_append2)
  have 3: "dropWhile (\<lambda>x. \<not> py_isspace x) (cs @ s) = dropWhile (\<lambda>x. \<not> py_isspace x) s"
    using assms(2) w by (simp add: dropWhile_append2)
  have 4: "\<not> py_isspace c" using assms(2) w by simp
  show ?thesis unfolding w by (subst tokens.simps) (use 2 3 4 in simp)
qed

lemma split_scan_tokens:
  "\<forall>c \<in> set cur. \<not> py_isspace c \<Longrightarrow> split_scan s cur acc = rev acc @ tokens (rev cur @ s)"
proof (induction s arbitrary: cur acc)
  case Nil
  show ?case
  proof (cases "cur = []")
    case True
    then show ?thesis by (simp add: flush_word_def tokens_Nil)
  next
    case False
    then have "tokens (rev cur @ []) = [rev cur @ []]"
      using Nil by (subst tokens_word) (auto simp: tokens_Nil)
    with False show ?thesis by (simp add: flush_word_def)
  qed
next
  case (Cons c cs)
  show ?case
  proof (cases "py_isspace c")
    case True
    have "split_scan (c # cs) cur acc = rev (flush_word cur acc) @ tokens cs"
      using True Cons.IH [of "[]" "flush_word cur acc"] by simp
    moreover have "tokens (rev cur @ c # cs) = (if cur = [] then tokens cs else rev cur # tokens cs)"
    proof (cases "cur = []")
      case True
      with \<open>py_isspace c\<close> show ?thesis by (simp add: tokens_space)
    next
      case False
      then show ?thesis using Cons.prems \<open>py_isspace c\<close>
        by (subst tokens_word) (auto simp: tokens_space)
    qed
    ultimately show ?thesis by (simp add: flush_word_def)
  next
    case False
    then show ?thesis using Cons.IH [of "c # cur" acc] Cons.prems by simp
  qed
qed

lemma split_eq_tokens: "py_split s = tokens s"
  by (simp add: py_split_def split_scan_tokens)

lemma tokens_nonspace_hd:
  assumes "s \<noteq> []" "\<not> py_isspace (hd s)"
  shows "\<exists>ws. tokens s = (hd s # takeWhile (\<lambda>x. \<not> py_isspace x) (tl s)) # ws"
proof -
  obtain c cs where s: "s = c # cs" using assms(1) by (cases s) auto
  show ?thesis using assms(2) unfolding s by (subst tokens.simps) simp
qed

section \<open>Properties of the parser\<close>

lemma payload_tokens:
  assumes "py_strip r \<noteq> []"
  shows "\<exists>d n ws. py_split (py_strip r) = (d # n) # ws \<and> d = hd (py_strip r) \<and> \<not> py_isspace d"
  using tokens_nonspace_hd [OF assms strip_hd [OF assms]] strip_hd [OF assms]
  by (auto simp: split_eq_tokens)

lemma startswith_dash: "py_startswith (d # n) ''-'' = (d = CHR ''-'')"
  by (simp add: py_startswith_def)

lemma parse_refines:
  "parse p m = Inr (map_option as_message (parse_spec p (text_str m)))"
proof (cases "py_startswith (text_str m) p")
  case False
  then show ?thesis by (simp add: parse_def parse_spec_def startswith_eq)
next
  case True
  let ?payload = "py_strip (drop (length p) (text_str m))"
  show ?thesis
  proof (cases "?payload = []")
    case e: True
    with True show ?thesis
      by (simp add: parse_def parse_spec_def startswith_eq [symmetric] strip_eq_trim [symmetric])
  next
    case ne: False
    from payload_tokens [OF ne] obtain d n ws where
      t: "py_split ?payload = (d # n) # ws" by blast
    then have t': "tokens (trim (drop (length p) (text_str m))) = (d # n) # ws"
      by (simp add: split_eq_tokens strip_eq_trim)
    from True ne t t' show ?thesis
      by (simp add: parse_def parse_spec_def startswith_eq [symmetric] strip_eq_trim [symmetric]
          Let_def startswith_dash)
  qed
qed


text \<open>
  C1. For a filter configured with a non-empty prefix and for every message, \<open>parse\<close>
  raises nothing and returns what the parser of the specification returns: none when the
  text does not start with the prefix or the trimmed payload is empty, a command (first
  token without its \<open>-\<close>, lower-cased, and the other tokens in order) when the first
  token starts with \<open>-\<close>, the whole trimmed payload as a query otherwise. With the
  prefix \<open>/bot\<close>, the text \<open>/bot -cmd a b\<close> gives the command \<open>cmd\<close> with the
  arguments \<open>a\<close>, \<open>b\<close>, and \<open>/bot hola\<close> gives the query \<open>hola\<close>.
\<close>

theorem parse_refines_spec:
  assumes "MessageFilter_init p = Inr f"
  shows "parse f m = Inr (map_option as_message (parse_spec f (text_str m))) \<and>
         parse ''/bot'' (ChatMessage_new ''/bot -cmd a b'' False) =
           Inr (Some (as_message (CommandVariant \<lparr>name = ''cmd'', args = [''a'', ''b'']\<rparr>))) \<and>
         parse ''/bot'' (ChatMessage_new ''/bot hola'' False) =
           Inr (Some (as_message (QueryVariant ''hola'')))"
proof (intro conjI)
  show "parse f m = Inr (map_option as_message (parse_spec f (text_str m)))"
    by (rule parse_refines)
  show "parse ''/bot'' (ChatMessage_new ''/bot -cmd a b'' False) =
           Inr (Some (as_message (CommandVariant \<lparr>name = ''cmd'', args = [''a'', ''b'']\<rparr>)))"
    by code_simp
  show "parse ''/bot'' (ChatMessage_new ''/bot hola'' False) =
           Inr (Some (as_message (QueryVariant ''hola'')))"
    by code_simp
qed

theorem parse_refines_spec_witness:
  "MessageFilter_init ''/bot'' = Inr ''/bot'' \<and>
   parse ''/bot'' (ChatMessage_new ''/bot  -PiNg  now  please '' True) =
     Inr (Some \<lparr>is_command = True,
                command = Some \<lparr>name = ''ping'', args = [''now'', ''please'']\<rparr>,
                query = None\<rparr>)"
proof -
  have h: "MessageFilter_init ''/bot'' = Inr ''/bot''"
    by (simp add: MessageFilter_init_def)
  have v: "parse_spec ''/bot'' ''/bot  -PiNg  now  please '' =
             Some (CommandVariant \<lparr>name = ''ping'', args = [''now'', ''please'']\<rparr>)"
    by code_simp
  from parse_refines_spec [OF h, of "ChatMessage_new ''/bot  -PiNg  now  please '' True"]
  show ?thesis using h v by (simp add: ChatMessage_new_def)
qed

text \<open>
  C8, as stated, fails: the payload \<open>-\<close> is accepted as a command whose name is empty.
\<close>

theorem empty_command_name_counterexample:
  "parse ''/bot'' (ChatMessage_new ''/bot -'' False) =
     Inr (Some \<lparr>is_command = True, command = Some \<lparr>name = [], args = []\<rparr>, query = None\<rparr>)"
  by code_simp

text \<open>
  C8, amended. For every message that \<open>parse\<close> accepts as a command, the name is the
  first token of the payload without its leading \<open>-\<close>, passed through \<open>str.lower\<close>, and
  the arguments are the other tokens; the name is empty exactly when that first token is
  the single character \<open>-\<close>, and non-empty for every other first token.
\<close>

theorem command_name_from_token:
  assumes "parse p m = Inr (Some pm)" and "is_command pm"
  shows "\<exists>c w ws. command pm = Some c \<and>
           py_split (py_strip (drop (length p) (text_str m))) = w # ws \<and>
           py_startswith w ''-'' \<and>
           name c = py_lower (drop 1 w) \<and> args c = ws \<and>
           (name c = [] \<longleftrightarrow> w = ''-'')"
proof -
  let ?payload = "py_strip (drop (length p) (text_str m))"
  from assms(1) have sw: "py_startswith (text_str m) p"
    by (auto simp: parse_def split: if_splits)
  from assms(1) sw have ne: "?payload \<noteq> []"
    by (auto simp: parse_def Let_def split: if_splits)
  from payload_tokens [OF ne] obtain d n ws where
    t: "py_split ?payload = (d # n) # ws" by blast
  from assms sw ne t have d: "d = CHR ''-''"
    by (auto simp: parse_def Let_def startswith_dash split: if_splits)
  from assms(1) sw ne t d have
    pm: "pm = \<lparr>is_command = True, command = Some \<lparr>name = py_lower n, args = ws\<rparr>, query = None\<rparr>"
    by (simp add: parse_def Let_def startswith_dash)
  show ?thesis
    using t d pm by (auto simp: py_lower_def startswith_dash)
qed

theorem command_name_from_token_witness:
  "parse ''/bot'' (ChatMessage_new ''/bot -HeLP me'' False) =
     Inr (Some \<lparr>is_command = True, command = Some \<lparr>name = ''help'', args = [''me'']\<rparr>,
                query = None\<rparr>) \<and>
   py_lower (drop 1 ''-HeLP'') = ''help''"
proof -
  let ?pm = "\<lparr>is_command = True, command = Some \<lparr>name = ''help'', args = [''me'']\<rparr>,
              query = None\<rparr>"
  have e: "parse ''/bot'' (ChatMessage_new ''/bot -HeLP me'' False) = Inr (Some ?pm)"
    by code_simp
  have c: "is_command ?pm" by simp
  have s: "py_split (py_strip (drop (length ''/bot'')
             (text_str (ChatMessage_new ''/bot -HeLP me'' False)))) = [''-HeLP'', ''me'']"
    by code_simp
  from command_name_from_token [OF e c] obtain c' w ws where
    "command ?pm = Some c'" and "[''-HeLP'', ''me''] = w # ws"
    and "name c' = py_lower (drop 1 w)"
    unfolding s by blast
  then have "py_lower (drop 1 ''-HeLP'') = ''help''" by auto
  with e show ?thesis by simp
qed

text \<open>
  C10. The prefix test asks for no word boundary: when the text is the prefix directly
  followed by a character that is not whitespace, \<open>parse\<close> does not return none; the
  payload is everything after the prefix, trimmed, and begins with that character; the
  result is a command when the character is \<open>-\<close> and the query holding the payload
  otherwise. With the prefix \<open>/bot\<close>, the text \<open>/bothola\<close> gives the query \<open>hola\<close>.
\<close>

theorem prefix_without_boundary:
  assumes "rest \<noteq> []" and "\<not> py_isspace (hd rest)"
  shows "(\<exists>w ws. py_split (py_strip rest) = w # ws \<and> hd w = hd rest \<and>
            hd (py_strip rest) = hd rest \<and>
            parse p (m\<lparr>text_str := p @ rest\<rparr>) =
              Inr (Some (if hd rest = CHR ''-''
                         then \<lparr>is_command = True,
                               command = Some \<lparr>name = py_lower (drop 1 w), args = ws\<rparr>,
                               query = None\<rparr>
                         else \<lparr>is_command = False, command = None,
                               query = Some (py_strip rest)\<rparr>))) \<and>
         parse ''/bot'' (ChatMessage_new ''/bothola'' False) =
           Inr (Some \<lparr>is_command = False, command = None, query = Some ''hola''\<rparr>)"
proof (intro conjI)
  obtain c cs where r: "rest = c # cs" using assms(1) by (cases rest) auto
  have nsp: "\<not> py_isspace c" using assms(2) r by simp
  have l: "py_lstrip rest = rest" using nsp r by (simp add: py_lstrip_def)
  have s: "py_strip rest = c # py_rstrip cs"
    unfolding py_strip_def l using nsp r by (simp add: rstrip_Cons)
  then have ne: "py_strip rest \<noteq> []" by simp
  from payload_tokens [OF ne] obtain d n ws where
    t: "py_split (py_strip rest) = (d # n) # ws" and d: "d = hd (py_strip rest)" by blast
  have dc: "d = c" using d s by simp
  have sw: "py_startswith (p @ rest) p" by (simp add: py_startswith_def)
  have "parse p (m\<lparr>text_str := p @ rest\<rparr>) =
              Inr (Some (if hd rest = CHR ''-''
                         then \<lparr>is_command = True,
                               command = Some \<lparr>name = py_lower (drop 1 (d # n)), args = ws\<rparr>,
                               query = None\<rparr>
                         else \<lparr>is_command = False, command = None,
                               query = Some (py_strip rest)\<rparr>))"
    using sw ne t dc r by (simp add: parse_def Let_def startswith_dash)
  then show "\<exists>w ws. py_split (py_strip rest) = w # ws \<and> hd w = hd rest \<and>
            hd (py_strip rest) = hd rest \<and>
            parse p (m\<lparr>text_str := p @ rest\<rparr>) =
              Inr (Some (if hd rest = CHR ''-''
                         then \<lparr>is_command = True,
                               command = Some \<lparr>name = py_lower (drop 1 w), args = ws\<rparr>,
                               query = None\<rparr>
                         else \<lparr>is_command = False, command = None,
                               query = Some (py_strip rest)\<rparr>))"
    using t dc r s by auto
  show "parse ''/bot'' (ChatMessage_new ''/bothola'' False) =
           Inr (Some \<lparr>is_command = False, command = None, query = Some ''hola''\<rparr>)"
    by code_simp
qed

theorem prefix_without_boundary_witness:
  "parse ''/bot'' (ChatMessage_new ''/bot-Ping  x'' False) =
     Inr (Some \<lparr>is_command = True, command = Some \<lparr>name = ''ping'', args = [''x'']\<rparr>,
                query = None\<rparr>)"
proof -
  have 1: "''-Ping  x'' \<noteq> []" by simp
  have 2: "\<not> py_isspace (hd ''-Ping  x'')" by (simp add: py_isspace_def whitespace_chars_def)
  have 3: "py_split (py_strip ''-Ping  x'') = [''-Ping'', ''x'']" by code_simp
  have 4: "py_lower ''Ping'' = ''ping''" by code_simp
  from prefix_without_boundary [OF 1 2, of "''/bot''" "ChatMessage_new [] False"]
  show ?thesis using 3 4 by (simp add: ChatMessage_new_def)
qed

section \<open>Properties of the dispatcher\<close>

lemma known_commands_props:
  "sorted (known_commands self) \<and> distinct (known_commands self) \<and>
   set (known_commands self) = insert ''help'' (fst ` set (commands self))"
proof -
  let ?A = "set (map fst (commands self)) \<union> {''help''}"
  have fin: "finite ?A" by simp
  have "sorted (sorted_list_of_set ?A)" by (rule sorted_sorted_list_of_set)
  moreover have "distinct (sorted_list_of_set ?A)" by (rule distinct_sorted_list_of_set)
  moreover have "set (sorted_list_of_set ?A) = ?A" using fin by (rule set_sorted_list_of_set)
  moreover have "?A = insert ''help'' (fst ` set (commands self))" by auto
  ultimately show ?thesis unfolding known_commands_def by metis
qed

lemma join_header: "items \<noteq> [] \<Longrightarrow> py_join sep (h # items) = h @ sep @ py_join sep items"
  by (cases items) simp_all

lemma known_commands_nonempty: "known_commands self \<noteq> []"
  using known_commands_props [of self] by (metis empty_iff insert_iff list.set(1))

lemma help_message_lines:
  "help_message self =
     py_join newline (''Available commands:'' # map (help_line self) (known_commands self))"
  by (simp add: help_message_def join_header known_commands_nonempty)

text \<open>
  C2. \<open>handle\<close> raises nothing, whatever the command. For the name \<open>help\<close> it
  returns the header line \<open>Available commands:\<close> followed by one line
  \<open>- <prefix> <name>\<close> per known name, the known names being the keys of the table and
  \<open>help\<close>, sorted and each exactly once. For another name that is a key of the table it
  returns the value stored under the key (\<open>pong\<close> for \<open>ping\<close>). For any other name it
  returns \<open>Unknown command '<name>'. Try '<prefix> help'.\<close> (for the prefix \<open>/bot\<close>
  and the name \<open>xyz\<close>: \<open>Unknown command 'xyz'. Try '/bot help'.\<close>).
\<close>

theorem handle_postcondition:
  "(\<exists>names. sorted names \<and> distinct names \<and>
      set names = insert ''help'' (fst ` set (commands self)) \<and>
      handle self cmd =
        Inr (if name cmd = ''help''
             then py_join [CHR 0x0A]
                    (''Available commands:'' # map (\<lambda>n. ''- '' @ prefix self @ '' '' @ n) names)
             else (case map_of (commands self) (name cmd) of
                     Some reply \<Rightarrow> reply
                   | None \<Rightarrow>
                       ''Unknown command '' @ [CHR 0x27] @ name cmd @ [CHR 0x27] @ ''. Try '' @
                       [CHR 0x27] @ prefix self @ '' help'' @ [CHR 0x27] @ ''.''))) \<and>
   handle (CommandHandler_init p) \<lparr>name = ''ping'', args = a\<rparr> = Inr ''pong'' \<and>
   handle (CommandHandler_init ''/bot'') \<lparr>name = ''xyz'', args = a\<rparr> =
     Inr (''Unknown command '' @ [CHR 0x27] @ ''xyz'' @ [CHR 0x27] @ ''. Try '' @ [CHR 0x27] @
          ''/bot help'' @ [CHR 0x27] @ ''.'')"
proof (intro conjI)
  have l: "help_line self = (\<lambda>n. ''- '' @ prefix self @ '' '' @ n)"
    by (rule ext) (simp add: help_line_def)
  have key: "name cmd \<in> fst ` set (commands self) \<Longrightarrow>
               \<exists>v. map_of (commands self) (name cmd) = Some v"
    by (metis map_of_eq_None_iff not_Some_eq)
  have nokey: "name cmd \<notin> fst ` set (commands self) \<Longrightarrow>
               map_of (commands self) (name cmd) = None"
    by (simp add: map_of_eq_None_iff)
  have "handle self cmd =
        Inr (if name cmd = ''help''
             then py_join [CHR 0x0A]
                    (''Available commands:'' #
                     map (\<lambda>n. ''- '' @ prefix self @ '' '' @ n) (known_commands self))
             else (case map_of (commands self) (name cmd) of
                     Some reply \<Rightarrow> reply
                   | None \<Rightarrow>
                       ''Unknown command '' @ [CHR 0x27] @ name cmd @ [CHR 0x27] @ ''. Try '' @
                       [CHR 0x27] @ prefix self @ '' help'' @ [CHR 0x27] @ ''.''))"
  proof (cases "name cmd = ''help''")
    case True
    then show ?thesis
      by (simp add: handle_def help_message_lines l newline_def)
  next
    case False
    show ?thesis
    proof (cases "name cmd \<in> fst ` set (commands self)")
      case True
      with key obtain v where "map_of (commands self) (name cmd) = Some v" by blast
      with False True show ?thesis by (simp add: handle_def)
    next
      case nk: False
      with nokey have "map_of (commands self) (name cmd) = None" by blast
      with False nk show ?thesis by (simp add: handle_def unknown_reply_def quote_def)
    qed
  qed
  with known_commands_props [of self]
  show "\<exists>names. sorted names \<and> distinct names \<and>
      set names = insert ''help'' (fst ` set (commands self)) \<and>
      handle self cmd =
        Inr (if name cmd = ''help''
             then py_join [CHR 0x0A]
                    (''Available commands:'' # map (\<lambda>n. ''- '' @ prefix self @ '' '' @ n) names)
             else (case map_of (commands self) (name cmd) of
                     Some reply \<Rightarrow> reply
                   | None \<Rightarrow>
                       ''Unknown command '' @ [CHR 0x27] @ name cmd @ [CHR 0x27] @ ''. Try '' @
                       [CHR 0x27] @ prefix self @ '' help'' @ [CHR 0x27] @ ''.''))"
    by blast
  show "handle (CommandHandler_init p) \<lparr>name = ''ping'', args = a\<rparr> = Inr ''pong''"
    by (simp add: handle_def CommandHandler_init_def)
  show "handle (CommandHandler_init ''/bot'') \<lparr>name = ''xyz'', args = a\<rparr> =
     Inr (''Unknown command '' @ [CHR 0x27] @ ''xyz'' @ [CHR 0x27] @ ''. Try '' @ [CHR 0x27] @
          ''/bot help'' @ [CHR 0x27] @ ''.'')"
    by (simp add: handle_def CommandHandler_init_def unknown_reply_def quote_def)
qed

theorem handle_postcondition_witness:
  "handle (CommandHandler_init ''/bot'') \<lparr>name = ''help'', args = []\<rparr> =
     Inr (''Available commands:'' @ [CHR 0x0A] @ ''- /bot help'' @ [CHR 0x0A] @ ''- /bot ping'')"
proof -
  let ?h = "CommandHandler_init ''/bot''"
  let ?c = "\<lparr>name = ''help'', args = []\<rparr>"
  note post = handle_postcondition [where self = ?h and cmd = ?c and p = "[]" and a = "[]",
      THEN conjunct1]
  then obtain names where s: "sorted names" and d: "distinct names"
    and k: "set names = insert ''help'' (fst ` set (commands ?h))"
    and r: "handle ?h ?c =
              Inr (if name ?c = ''help''
                   then py_join [CHR 0x0A]
                     (''Available commands:'' # map (\<lambda>n. ''- '' @ prefix ?h @ '' '' @ n) names)
                   else (case map_of (commands ?h) (name ?c) of
                     Some reply \<Rightarrow> reply
                   | None \<Rightarrow>
                       ''Unknown command '' @ [CHR 0x27] @ name ?c @ [CHR 0x27] @ ''. Try '' @
                       [CHR 0x27] @ prefix ?h @ '' help'' @ [CHR 0x27] @ ''.''))"
    by blast
  have lt: "''help'' < ''ping''" by code_simp
  have "set names = set [''help'', ''ping'']" using k by (simp add: CommandHandler_init_def)
  moreover have "sorted [''help'', ''ping'']" using lt by simp
  moreover have "distinct [''help'', ''ping'']" by simp
  ultimately have "names = [''help'', ''ping'']"
    using s d by (metis sorted_distinct_set_unique)
  with r show ?thesis by (simp add: CommandHandler_init_def)
qed

section \<open>Properties of the deduplication cache\<close>

lemma push_reads_bucket:
  "\<exists>new. snd (push_reads self bucket rs) = bucket @ new \<and>
         push_reads self [] rs = (fst (push_reads self bucket rs), new)"
proof (induction rs arbitrary: self bucket)
  case Nil
  show ?case by simp
next
  case (Cons r rs)
  obtain t fm where r: "r = (t, fm)" by (cases r)
  show ?case
  proof (cases "last_seen self ''last'' = Some t")
    case True
    with Cons.IH [of self bucket] show ?thesis by (simp add: r push_if_new_def)
  next
    case False
    let ?s = "self\<lparr>last_seen := (last_seen self)(''last'' \<mapsto> t)\<rparr>"
    let ?m = "ChatMessage_new t fm"
    from Cons.IH [of ?s "bucket @ [?m]"] obtain n1 where
      1: "snd (push_reads ?s (bucket @ [?m]) rs) = (bucket @ [?m]) @ n1"
      and 2: "push_reads ?s [] rs = (fst (push_reads ?s (bucket @ [?m]) rs), n1)" by blast
    from Cons.IH [of ?s "[?m]"] obtain n2 where
      3: "snd (push_reads ?s [?m] rs) = [?m] @ n2"
      and 4: "push_reads ?s [] rs = (fst (push_reads ?s [?m] rs), n2)" by blast
    from 2 4 have "n1 = n2" and "fst (push_reads ?s (bucket @ [?m]) rs) = fst (push_reads ?s [?m] rs)"
      by simp_all
    with 1 3 False show ?thesis
      by (simp add: r push_if_new_def prod_eq_iff)
  qed
qed

lemma push_reads_texts:
  "map Some (map text_str (snd (push_reads self [] rs))) =
     tl (remdups_adj (last_seen self ''last'' # map Some (map fst rs))) \<and>
   last_seen (fst (push_reads self [] rs)) ''last'' =
     last (last_seen self ''last'' # map Some (map fst rs))"
proof (induction rs arbitrary: self)
  case Nil
  show ?case by simp
next
  case (Cons r rs)
  obtain t fm where r: "r = (t, fm)" by (cases r)
  show ?case
  proof (cases "last_seen self ''last'' = Some t")
    case True
    with Cons.IH [of self] show ?thesis by (simp add: r push_if_new_def)
  next
    case False
    let ?s = "self\<lparr>last_seen := (last_seen self)(''last'' \<mapsto> t)\<rparr>"
    let ?m = "ChatMessage_new t fm"
    from push_reads_bucket [of ?s "[?m]" rs] obtain new where
      1: "snd (push_reads ?s [?m] rs) = [?m] @ new"
      and 2: "push_reads ?s [] rs = (fst (push_reads ?s [?m] rs), new)" by blast
    have c: "last_seen ?s ''last'' = Some t" by simp
    have 6: "snd (push_reads ?s [] rs) = new" and 7: "fst (push_reads ?s [] rs) = fst (push_reads ?s [?m] rs)"
      unfolding 2 by simp_all
    from Cons.IH [of ?s] have
      3: "map Some (map text_str new) = tl (remdups_adj (Some t # map Some (map fst rs)))"
      and 4: "last_seen (fst (push_reads ?s [?m] rs)) ''last'' = last (Some t # map Some (map fst rs))"
      unfolding 6 7 c by blast+
    have 5: "remdups_adj (Some t # map Some (map fst rs)) = Some t # tl (remdups_adj (Some t # map Some (map fst rs)))"
      by (metis list.sel(3) remdups_adj_Cons')
    show ?thesis
      using False 1 3 4 5 by (simp add: r push_if_new_def ChatMessage_new_def)
  qed
qed

lemma push_reads_append:
  "push_reads self bucket (xs @ ys) =
     push_reads (fst (push_reads self bucket xs)) (snd (push_reads self bucket xs)) ys"
proof (induction xs arbitrary: self bucket)
  case Nil
  show ?case by simp
next
  case (Cons r rs)
  obtain t fm where r: "r = (t, fm)" by (cases r)
  obtain s1 b1 where p: "push_if_new self bucket t fm = (s1, b1)" by (cases "push_if_new self bucket t fm")
  show ?case using Cons.IH [of s1 b1] by (simp add: r p)
qed

lemma run_cycles_concat:
  "concat (fst (run_cycles self cycles)) = snd (push_reads self [] (concat cycles)) \<and>
   snd (run_cycles self cycles) = fst (push_reads self [] (concat cycles))"
proof (induction cycles arbitrary: self)
  case Nil
  show ?case by simp
next
  case (Cons c cs)
  obtain s1 b where p: "push_reads self [] c = (s1, b)" by (cases "push_reads self [] c")
  obtain bs s2 where q: "run_cycles s1 cs = (bs, s2)" by (cases "run_cycles s1 cs")
  from push_reads_bucket [of s1 b "concat cs"] obtain new where
    1: "snd (push_reads s1 b (concat cs)) = b @ new"
    and 2: "push_reads s1 [] (concat cs) = (fst (push_reads s1 b (concat cs)), new)" by blast
  from Cons.IH [of s1] q 2 have "concat bs = new" and "s2 = fst (push_reads s1 b (concat cs))"
    by simp_all
  with 1 show ?case by (simp add: p q push_reads_append)
qed

text \<open>
  C3, as stated, fails: a text read again after a different text is forwarded again, in
  the same cycle or in a later one.
\<close>

theorem forwarded_once_counterexample:
  "forwarded_texts
     (fst (run_cycles ChatService_init
             [[(''hola'', False), (''ping'', False)], [(''hola'', False)]])) =
   [''hola'', ''ping'', ''hola'']"
  by (simp add: forwarded_texts_def ChatService_init_def push_if_new_def ChatMessage_new_def)

text \<open>
  C3, amended. For every sequence of successful reads over any number of chats and
  cycles, a read is forwarded exactly when its text differs from the text of the read just
  before it (from the cached text, for the first read): the forwarded texts are the texts
  read with every run of equal consecutive texts reduced to one, so no two consecutive
  forwarded messages carry the same text.
\<close>

theorem forwarded_once_per_run:
  "map Some (forwarded_texts (fst (run_cycles self cycles))) =
     tl (remdups_adj (last_seen self ''last'' # map Some (map fst (concat cycles)))) \<and>
   distinct_adj (forwarded_texts (fst (run_cycles self cycles)))"
proof -
  have 1: "map Some (forwarded_texts (fst (run_cycles self cycles))) =
     tl (remdups_adj (last_seen self ''last'' # map Some (map fst (concat cycles))))"
    using push_reads_texts [of self "concat cycles"] run_cycles_concat [of self cycles]
    by (simp add: forwarded_texts_def)
  have "distinct_adj (remdups_adj (last_seen self ''last'' # map Some (map fst (concat cycles))))"
    by (rule distinct_adj_remdups_adj)
  then have "distinct_adj (tl (remdups_adj (last_seen self ''last'' # map Some (map fst (concat cycles)))))"
    by (metis distinct_adj_ConsD remdups_adj_Cons_alt)
  with 1 have "distinct_adj (map Some (forwarded_texts (fst (run_cycles self cycles))))"
    by simp
  then have "distinct_adj (forwarded_texts (fst (run_cycles self cycles)))"
    by (rule distinct_adj_mapD)
  with 1 show ?thesis by blast
qed

text \<open>
  C7, as stated, fails: when the cache already holds the text, both reads are suppressed
  and nothing is emitted.
\<close>

theorem two_reads_counterexample:
  "push_reads \<lparr>last_seen = [''last'' \<mapsto> ''hola''], reads = []\<rparr> []
     [(''hola'', False), (''hola'', False)] =
   (\<lparr>last_seen = [''last'' \<mapsto> ''hola''], reads = []\<rparr>, [])"
  by (simp add: push_if_new_def)

text \<open>
  C7, amended. Starting from a cache that does not hold the text (the empty cache of a
  fresh service among them), two successive reads with that text emit exactly one message,
  the second read being suppressed; a third read with a different text emits a second
  message and leaves the cache holding the new text.
\<close>

theorem two_reads_one_message:
  assumes "last_seen self ''last'' \<noteq> Some t" and "t' \<noteq> t"
  shows "snd (push_reads self bucket [(t, fm1), (t, fm2)]) = bucket @ [ChatMessage_new t fm1] \<and>
         last_seen (fst (push_reads self bucket [(t, fm1), (t, fm2)])) ''last'' = Some t \<and>
         snd (push_reads self bucket [(t, fm1), (t, fm2), (t', fm3)]) =
           bucket @ [ChatMessage_new t fm1, ChatMessage_new t' fm3] \<and>
         last_seen (fst (push_reads self bucket [(t, fm1), (t, fm2), (t', fm3)])) ''last'' =
           Some t'"
  using assms by (simp add: push_if_new_def)

theorem two_reads_one_message_witness:
  "snd (push_reads ChatService_init [] [(''hola'', False), (''hola'', False), (''ping'', True)]) =
     [ChatMessage_new ''hola'' False, ChatMessage_new ''ping'' True]"
proof -
  have 1: "last_seen ChatService_init ''last'' \<noteq> Some ''hola''"
    by (simp add: ChatService_init_def)
  have 2: "''ping'' \<noteq> ''hola''" by simp
  from two_reads_one_message [OF 1 2, of "[]" False False True] show ?thesis by simp
qed

section \<open>Properties of the AI query path\<close>

text \<open>
  C9. \<open>call_ai\<close> always returns a reply string and lets no exception of the backend
  through. Without a credential (none, or the empty string) no client exists: the reply is
  \<open>Error: AI client not configured (missing API key).\<close> and no request is sent. With
  a client one request is sent; when it fails and the text of the failure contains
  \<open>429\<close> the reply is the apology \<open>Lo siento, he alcanzado mi l\<dots>mite de mensajes por
  ahora. Por favor, int\<dots>ntalo de nuevo en unos segundos.\<close> (with U+00ED and U+00E9 at
  the dots); when it fails otherwise the reply is \<open>Sorry, I encountered an error
  processing that: \<close> followed by the failure text; when it succeeds the reply is the
  response text, or \<open>No response from AI.\<close> when that text is missing or empty. The
  apology differs from every generic error reply, from the configuration error and from
  the reply for a missing text.
\<close>

theorem call_ai_replies:
  "call_ai (make_ai_client None) backend sent q =
     (''Error: AI client not configured (missing API key).'', sent) \<and>
   call_ai (make_ai_client (Some [])) backend sent q =
     (''Error: AI client not configured (missing API key).'', sent) \<and>
   (k \<noteq> [] \<longrightarrow>
      call_ai (make_ai_client (Some k)) backend sent q =
        (case backend q of
           Failure e \<Rightarrow>
             if py_in ''429'' e
             then ''Lo siento, he alcanzado mi l'' @ [CHR 0xED] @
                  ''mite de mensajes por ahora. Por favor, int'' @ [CHR 0xE9] @
                  ''ntalo de nuevo en unos segundos.''
             else ''Sorry, I encountered an error processing that: '' @ e
         | Response None \<Rightarrow> ''No response from AI.''
         | Response (Some v) \<Rightarrow> if v = [] then ''No response from AI.'' else v,
         sent @ [q])) \<and>
   ''Lo siento, he alcanzado mi l'' @ [CHR 0xED] @
     ''mite de mensajes por ahora. Por favor, int'' @ [CHR 0xE9] @
     ''ntalo de nuevo en unos segundos.'' \<noteq>
     ''Sorry, I encountered an error processing that: '' @ e \<and>
   ''Lo siento, he alcanzado mi l'' @ [CHR 0xED] @
     ''mite de mensajes por ahora. Por favor, int'' @ [CHR 0xE9] @
     ''ntalo de nuevo en unos segundos.'' \<noteq>
     ''Error: AI client not configured (missing API key).'' \<and>
   ''Lo siento, he alcanzado mi l'' @ [CHR 0xED] @
     ''mite de mensajes por ahora. Por favor, int'' @ [CHR 0xE9] @
     ''ntalo de nuevo en unos segundos.'' \<noteq> ''No response from AI.''"
  by (simp add: call_ai_def make_ai_client_def call_ai_try_def
      split: completion.split option.split)

theorem call_ai_replies_witness:
  "call_ai (make_ai_client (Some ''key'')) (\<lambda>q. Failure ''HTTP 429 Too Many Requests'') []
     ''hola'' =
     (''Lo siento, he alcanzado mi l'' @ [CHR 0xED] @
      ''mite de mensajes por ahora. Por favor, int'' @ [CHR 0xE9] @
      ''ntalo de nuevo en unos segundos.'', [''hola'']) \<and>
   call_ai (make_ai_client (Some ''key'')) (\<lambda>q. Failure ''connection reset'') []
     ''hola'' = (''Sorry, I encountered an error processing that: connection reset'', [''hola''])"
proof -
  have k: "''key'' \<noteq> []" by simp
  have 1: "py_in ''429'' ''HTTP 429 Too Many Requests''" by code_simp
  have 2: "\<not> py_in ''429'' ''connection reset''" by code_simp
  from call_ai_replies [of "\<lambda>q. Failure ''HTTP 429 Too Many Requests''" "[]" "''hola''" "''key''" "[]"]
    call_ai_replies [of "\<lambda>q. Failure ''connection reset''" "[]" "''hola''" "''key''" "[]"]
  show ?thesis using k 1 2 by simp
qed

section \<open>Properties of the reader of the last message\<close>

lemma candidate_text_Some:
  "candidate_text b ts = Inr (Some t) \<longleftrightarrow>
     (\<exists>inner others. text_els b ts = Returns (Returns inner # others) \<and>
        t = py_strip inner \<and> 1 < length t)"
  by (auto simp: candidate_text_def Let_def split: outcome.splits list.splits)

lemma find_text_Some:
  "find_text b fm sels = Inr (Some (t, fm')) \<longleftrightarrow>
     fm' = fm \<and>
     (\<exists>i < length sels. candidate_text b (sels ! i) = Inr (Some t) \<and>
        (\<forall>j < i. candidate_text b (sels ! j) = Inr None))"
proof (induction sels)
  case Nil
  show ?case by simp
next
  case (Cons ts rest)
  show ?case
  proof (cases "candidate_text b ts")
    case (Inl e)
    have "\<not> (\<exists>i < length (ts # rest). candidate_text b ((ts # rest) ! i) = Inr (Some t) \<and>
        (\<forall>j < i. candidate_text b ((ts # rest) ! j) = Inr None))"
    proof
      assume "\<exists>i < length (ts # rest). candidate_text b ((ts # rest) ! i) = Inr (Some t) \<and>
        (\<forall>j < i. candidate_text b ((ts # rest) ! j) = Inr None)"
      then obtain i where i: "candidate_text b ((ts # rest) ! i) = Inr (Some t)"
        and j: "\<forall>j < i. candidate_text b ((ts # rest) ! j) = Inr None" by blast
      show False
      proof (cases i)
        case 0
        with i Inl show False by simp
      next
        case (Suc k)
        with j have "candidate_text b ((ts # rest) ! 0) = Inr None" by blast
        with Inl show False by simp
      qed
    qed
    with Inl show ?thesis by simp
  next
    case (Inr r)
    show ?thesis
    proof (cases r)
      case None
      have "(\<exists>i < length (ts # rest). candidate_text b ((ts # rest) ! i) = Inr (Some t) \<and>
              (\<forall>j < i. candidate_text b ((ts # rest) ! j) = Inr None)) \<longleftrightarrow>
            (\<exists>i < length rest. candidate_text b (rest ! i) = Inr (Some t) \<and>
              (\<forall>j < i. candidate_text b (rest ! j) = Inr None))" (is "?L \<longleftrightarrow> ?R")
      proof
        assume ?L
        then obtain i where l: "i < length (ts # rest)"
          and i: "candidate_text b ((ts # rest) ! i) = Inr (Some t)"
          and j: "\<forall>j < i. candidate_text b ((ts # rest) ! j) = Inr None" by blast
        from i Inr None obtain k where k: "i = Suc k" by (cases i) auto
        from j k have "\<forall>j < k. candidate_text b (rest ! j) = Inr None" by auto
        with l i k show ?R by auto
      next
        assume ?R
        then obtain k where l: "k < length rest"
          and i: "candidate_text b (rest ! k) = Inr (Some t)"
          and j: "\<forall>j < k. candidate_text b (rest ! j) = Inr None" by blast
        have "\<forall>j < Suc k. candidate_text b ((ts # rest) ! j) = Inr None"
        proof (intro allI impI)
          fix j assume "j < Suc k"
          then show "candidate_text b ((ts # rest) ! j) = Inr None"
            using j Inr None by (cases j) auto
        qed
        with l i show ?L by (intro exI [of _ "Suc k"]) simp
      qed
      with Inr None Cons.IH show ?thesis by simp
    next
      case (Some t0)
      have "(\<exists>i < length (ts # rest). candidate_text b ((ts # rest) ! i) = Inr (Some t) \<and>
              (\<forall>j < i. candidate_text b ((ts # rest) ! j) = Inr None)) \<longleftrightarrow> t0 = t" (is "?L \<longleftrightarrow> _")
      proof
        assume ?L
        then obtain i where i: "candidate_text b ((ts # rest) ! i) = Inr (Some t)"
          and j: "\<forall>j < i. candidate_text b ((ts # rest) ! j) = Inr None" by blast
        show "t0 = t"
        proof (cases i)
          case 0
          with i Inr Some show ?thesis by simp
        next
          case (Suc k)
          with j have "candidate_text b ((ts # rest) ! 0) = Inr None" by blast
          with Inr Some show ?thesis by simp
        qed
      next
        assume "t0 = t"
        with Inr Some show ?L by (intro exI [of _ 0]) simp
      qed
      with Inr Some show ?thesis by auto
    qed
  qed
qed

lemma last_message_text_Some:
  "last_message_text p = Some (t, fm) \<longleftrightarrow>
     (\<exists>cont bs attr.
        resolve_container p = Inr (Some cont) \<and> bubbles cont = Returns bs \<and> bs \<noteq> [] \<and>
        class_attr (bs ! (length bs - 1)) = Returns attr \<and>
        find_text (bs ! (length bs - 1))
          (py_in ''message-out'' (case attr of None \<Rightarrow> [] | Some v \<Rightarrow> v)) text_selectors =
          Inr (Some (t, fm)))"
  by (auto simp: last_message_text_def last_message_text_try_def scroll_to_bottom_def Let_def
      split: sum.splits option.splits outcome.splits list.splits)

lemma candidate_text_None:
  "candidate_text b ts = Inr None \<longleftrightarrow>
     text_els b ts = Returns [] \<or>
     (\<exists>inner others. text_els b ts = Returns (Returns inner # others) \<and>
        length (py_strip inner) \<le> 1)"
  by (auto simp: candidate_text_def Let_def split: outcome.splits list.splits)

text \<open>
  C6. \<open>_last_message_text\<close> returns none when the resolved container holds no bubble.
  It returns a text exactly when a container resolves, it holds bubbles, and in the bubble
  at the highest index some text selector yields an element whose trimmed text is longer
  than one character, every selector before it yielding no element or a trimmed text of at
  most one character; the text returned is that trimmed text and the flag tells whether
  the class attribute of that bubble contains \<open>message-out\<close>. Every exception raised on
  the way (resolving the container, counting the bubbles, reading the class attribute or a
  text) ends in none: the function never raises.
\<close>

theorem last_message_text_contract:
  "(resolve_container p = Inr (Some cont) \<longrightarrow> bubbles cont = Returns [] \<longrightarrow>
      last_message_text p = None) \<and>
   (last_message_text_try p = Inl e \<longrightarrow> last_message_text p = None) \<and>
   (last_message_text p = Some (t, fm) \<longleftrightarrow>
      (\<exists>c bs attr i.
         resolve_container p = Inr (Some c) \<and> bubbles c = Returns bs \<and> bs \<noteq> [] \<and>
         class_attr (bs ! (length bs - 1)) = Returns attr \<and>
         fm = py_in ''message-out'' (case attr of None \<Rightarrow> [] | Some v \<Rightarrow> v) \<and>
         i < length text_selectors \<and>
         (\<exists>inner others.
            text_els (bs ! (length bs - 1)) (text_selectors ! i) =
              Returns (Returns inner # others) \<and>
            t = py_strip inner \<and> 1 < length t) \<and>
         (\<forall>j < i.
            text_els (bs ! (length bs - 1)) (text_selectors ! j) = Returns [] \<or>
            (\<exists>inner others.
               text_els (bs ! (length bs - 1)) (text_selectors ! j) =
                 Returns (Returns inner # others) \<and>
               length (py_strip inner) \<le> 1))))"
proof (intro conjI impI)
  show "last_message_text p = None"
    if "resolve_container p = Inr (Some cont)" and "bubbles cont = Returns []"
    using that
    by (simp add: last_message_text_def last_message_text_try_def scroll_to_bottom_def
        split: outcome.splits list.splits)
  show "last_message_text p = None" if "last_message_text_try p = Inl e"
    using that by (simp add: last_message_text_def)
  show "last_message_text p = Some (t, fm) \<longleftrightarrow>
      (\<exists>c bs attr i.
         resolve_container p = Inr (Some c) \<and> bubbles c = Returns bs \<and> bs \<noteq> [] \<and>
         class_attr (bs ! (length bs - 1)) = Returns attr \<and>
         fm = py_in ''message-out'' (case attr of None \<Rightarrow> [] | Some v \<Rightarrow> v) \<and>
         i < length text_selectors \<and>
         (\<exists>inner others.
            text_els (bs ! (length bs - 1)) (text_selectors ! i) =
              Returns (Returns inner # others) \<and>
            t = py_strip inner \<and> 1 < length t) \<and>
         (\<forall>j < i.
            text_els (bs ! (length bs - 1)) (text_selectors ! j) = Returns [] \<or>
            (\<exists>inner others.
               text_els (bs ! (length bs - 1)) (text_selectors ! j) =
                 Returns (Returns inner # others) \<and>
               length (py_strip inner) \<le> 1)))"
    unfolding last_message_text_Some find_text_Some candidate_text_Some candidate_text_None
    by blast
qed

theorem last_message_text_contract_witness:
  "last_message_text
     \<lparr>conversation = Returns [],
      message_region = Returns
        [\<lparr>bubbles = Returns
            [\<lparr>class_attr = Returns (Some ''message-in''),
              text_els = (\<lambda>ts. Returns [Returns ''earlier''])\<rparr>,
             \<lparr>class_attr = Returns (Some ''focusable message-out''),
              text_els = (\<lambda>ts. if ts = ''span.selectable-text'' then Returns [Returns '' 9 '']
                              else if ts = ''span.copyable-text''
                                   then Returns [Returns ''  /bot hola '', Raises PlaywrightError]
                                   else Returns [])\<rparr>]\<rparr>],
      scrollable = Raises PlaywrightError\<rparr> =
   Some (''/bot hola'', True)"
proof -
  let ?old = "\<lparr>class_attr = Returns (Some ''message-in''),
              text_els = (\<lambda>ts. Returns [Returns ''earlier''])\<rparr>"
  let ?lb = "\<lparr>class_attr = Returns (Some ''focusable message-out''),
              text_els = (\<lambda>ts. if ts = ''span.selectable-text'' then Returns [Returns '' 9 '']
                              else if ts = ''span.copyable-text''
                                   then Returns [Returns ''  /bot hola '', Raises PlaywrightError]
                                   else Returns [])\<rparr>"
  let ?c = "\<lparr>bubbles = Returns [?old, ?lb]\<rparr>"
  let ?p = "\<lparr>conversation = Returns [], message_region = Returns [?c],
             scrollable = Raises PlaywrightError\<rparr>"
  have 1: "resolve_container ?p = Inr (Some ?c)" by (simp add: resolve_container_def)
  have 2: "bubbles ?c = Returns [?old, ?lb]" by simp
  have 3: "[?old, ?lb] ! (length [?old, ?lb] - 1) = ?lb" by simp
  have 4: "class_attr ?lb = Returns (Some ''focusable message-out'')" by simp
  have 5: "True = py_in ''message-out'' (case Some ''focusable message-out'' of None \<Rightarrow> [] | Some v \<Rightarrow> v)"
    by code_simp
  have 6: "(2::nat) < length text_selectors" by (simp add: text_selectors_def)
  have s0: "text_selectors ! 0 = ''span.selectable-text''"
    and s1: "text_selectors ! Suc 0 \<noteq> ''span.selectable-text''"
            "text_selectors ! Suc 0 \<noteq> ''span.copyable-text''"
    and s2: "text_selectors ! 2 = ''span.copyable-text''"
    by (simp_all add: text_selectors_def)
  have st: "py_strip ''  /bot hola '' = ''/bot hola''" "py_strip '' 9 '' = ''9''" by code_simp+
  have 7: "\<exists>inner others. text_els ?lb (text_selectors ! 2) = Returns (Returns inner # others) \<and>
             ''/bot hola'' = py_strip inner \<and> 1 < length ''/bot hola''"
    using st by (simp add: s2)
  have 8: "\<forall>j < (2::nat). text_els ?lb (text_selectors ! j) = Returns [] \<or>
            (\<exists>inner others. text_els ?lb (text_selectors ! j) = Returns (Returns inner # others) \<and>
               length (py_strip inner) \<le> 1)"
  proof (intro allI impI)
    fix j :: nat assume "j < 2"
    then have "j = 0 \<or> j = Suc 0" by arith
    then show "text_els ?lb (text_selectors ! j) = Returns [] \<or>
            (\<exists>inner others. text_els ?lb (text_selectors ! j) = Returns (Returns inner # others) \<and>
               length (py_strip inner) \<le> 1)"
      using st s0 s1 by auto
  qed
  have "\<exists>c bs attr i.
         resolve_container ?p = Inr (Some c) \<and> bubbles c = Returns bs \<and> bs \<noteq> [] \<and>
         class_attr (bs ! (length bs - 1)) = Returns attr \<and>
         True = py_in ''message-out'' (case attr of None \<Rightarrow> [] | Some v \<Rightarrow> v) \<and>
         i < length text_selectors \<and>
         (\<exists>inner others.
            text_els (bs ! (length bs - 1)) (text_selectors ! i) =
              Returns (Returns inner # others) \<and>
            ''/bot hola'' = py_strip inner \<and> 1 < length ''/bot hola'') \<and>
         (\<forall>j < i.
            text_els (bs ! (length bs - 1)) (text_selectors ! j) = Returns [] \<or>
            (\<exists>inner others.
               text_els (bs ! (length bs - 1)) (text_selectors ! j) =
                 Returns (Returns inner # others) \<and>
               length (py_strip inner) \<le> 1))"
    apply (rule exI [of _ ?c])
    apply (rule exI [of _ "[?old, ?lb]"])
    apply (rule exI [of _ "Some ''focusable message-out''"])
    apply (rule exI [of _ "2::nat"])
    unfolding 3
    using 1 2 4 5 6 7 8 by (intro conjI) simp_all
  with last_message_text_contract [of ?p _ _ "''/bot hola''" True]
  show ?thesis by blast
qed

section \<open>Properties of the scan cycle\<close>

lemma process_chat_faults:
  "isl (process_chat self messages c) \<longleftrightarrow>
     (\<exists>e. click c = Raises e) \<or> wait_bubble c = Raises PlaywrightError \<or>
     (\<exists>e. count_in c = Raises e) \<or> (\<exists>e. count_out c = Raises e) \<or>
     (\<exists>e. count_lexical c = Raises e)"
  by (auto simp: process_chat_def read_last_def split: outcome.splits exn.splits option.splits)

lemma process_chat_no_fault:
  "\<not> isl (process_chat self messages c) \<Longrightarrow>
     process_chat self messages c = Inr (collect_active_chat_message self messages (view c))"
  by (auto simp: process_chat_def collect_active_chat_message_def read_last_def
      split: outcome.splits exn.splits option.splits)

lemma process_chat_fault_any_state:
  "isl (process_chat self messages c) = isl (process_chat self' messages' c)"
  by (simp only: process_chat_faults)

lemma scan_chats_skip:
  "isl (process_chat self' messages' c) \<Longrightarrow>
     scan_chats self messages (before @ c # after) = scan_chats self messages (before @ after)"
proof (induction before arbitrary: self messages)
  case Nil
  then have "isl (process_chat self messages c)"
    using process_chat_fault_any_state by blast
  then show ?case by (cases "process_chat self messages c") simp_all
next
  case (Cons b bs)
  show ?case
  proof (cases "process_chat self messages b")
    case (Inl e)
    with Cons show ?thesis by simp
  next
    case (Inr r)
    obtain s1 m1 where "r = (s1, m1)" by (cases r)
    with Inr Cons show ?thesis by simp
  qed
qed

lemma collect_active_reads:
  "reads (fst (collect_active_chat_message self bucket p)) = reads self @ [p]"
  by (simp add: collect_active_chat_message_def read_last_def push_if_new_def
      split: option.splits)

lemma scan_chats_reads:
  "reads (fst (scan_chats self messages chats)) =
     reads self @ map view (filter (\<lambda>c. \<not> isl (process_chat self messages c)) chats)"
proof (induction chats arbitrary: self messages)
  case Nil
  show ?case by simp
next
  case (Cons c cs)
  show ?case
  proof (cases "isl (process_chat self messages c)")
    case True
    then obtain e where "process_chat self messages c = Inl e"
      by (cases "process_chat self messages c") simp_all
    with True Cons [of self messages] show ?thesis by simp
  next
    case False
    obtain s1 m1 where r: "collect_active_chat_message self messages (view c) = (s1, m1)"
      by (cases "collect_active_chat_message self messages (view c)")
    have p: "process_chat self messages c = Inr (s1, m1)"
      using process_chat_no_fault [OF False] by (simp add: r)
    have f: "(\<lambda>c. \<not> isl (process_chat s1 m1 c)) =
             (\<lambda>c. \<not> isl (process_chat self messages c))"
      using process_chat_fault_any_state by blast
    have "reads s1 = reads self @ [view c]"
      using collect_active_reads [of self messages "view c"] by (simp add: r)
    then show ?thesis
      using False Cons [of s1 m1] by (simp add: p f)
  qed
qed

lemma poll_new_messages_result:
  assumes "collect_unread_chats s = Inr chats"
  shows "poll_new_messages self s =
           Inr (snd (collect_active_chat_message (fst (scan_chats self [] chats))
                       (snd (scan_chats self [] chats)) (active_view s)),
                fst (collect_active_chat_message (fst (scan_chats self [] chats))
                       (snd (scan_chats self [] chats)) (active_view s)))"
  using assms by (cases chats) (simp_all add: poll_new_messages_def split: prod.splits)

text \<open>
  C4. In a scan cycle over any list of unread chats, a chat is left by an exception
  exactly when its click, its bounded wait for a bubble (other than by timeout) or one of
  its counts raises; the read of its last message never raises. Such a chat is skipped
  and nothing else changes: the cycle gives what it gives on the list without that chat,
  so the chats after it are still processed, and the cycle returns normally. A chat
  without exception is read and its result pushed as the read of the active chat is.
  After the unread chats, the empty list included, the cycle makes exactly one more read,
  of the active chat, and pushes its result through the same deduplication.
\<close>

theorem scan_cycle_isolates_faults:
  assumes "collect_unread_chats s = Inr chats"
  shows "(\<exists>self1 messages1 self2 messages2.
            scan_chats self [] chats = (self1, messages1) \<and>
            collect_active_chat_message self1 messages1 (active_view s) = (self2, messages2) \<and>
            poll_new_messages self s = Inr (messages2, self2) \<and>
            reads self1 =
              reads self @ map view (filter (\<lambda>c. \<not> isl (process_chat self [] c)) chats) \<and>
            reads self2 = reads self1 @ [active_view s]) \<and>
         (\<forall>before c after.
            chats = before @ c # after \<longrightarrow> isl (process_chat self [] c) \<longrightarrow>
            scan_chats self [] chats = scan_chats self [] (before @ after)) \<and>
         (\<forall>c \<in> set chats. \<forall>self' messages'.
            (isl (process_chat self' messages' c) \<longleftrightarrow>
               (\<exists>e. click c = Raises e) \<or> wait_bubble c = Raises PlaywrightError \<or>
               (\<exists>e. count_in c = Raises e) \<or> (\<exists>e. count_out c = Raises e) \<or>
               (\<exists>e. count_lexical c = Raises e)) \<and>
            (\<not> isl (process_chat self' messages' c) \<longrightarrow>
               process_chat self' messages' c =
                 Inr (collect_active_chat_message self' messages' (view c))))"
proof (intro conjI)
  obtain self1 messages1 where 1: "scan_chats self [] chats = (self1, messages1)"
    by (cases "scan_chats self [] chats")
  obtain self2 messages2 where
    2: "collect_active_chat_message self1 messages1 (active_view s) = (self2, messages2)"
    by (cases "collect_active_chat_message self1 messages1 (active_view s)")
  have 3: "poll_new_messages self s = Inr (messages2, self2)"
    using poll_new_messages_result [OF assms, of self] by (simp add: 1 2)
  have 4: "reads self1 =
              reads self @ map view (filter (\<lambda>c. \<not> isl (process_chat self [] c)) chats)"
    using scan_chats_reads [of self "[]" chats] by (simp add: 1)
  have 5: "reads self2 = reads self1 @ [active_view s]"
    using collect_active_reads [of self1 messages1 "active_view s"] by (simp add: 2)
  from 1 2 3 4 5
  show "\<exists>self1 messages1 self2 messages2.
            scan_chats self [] chats = (self1, messages1) \<and>
            collect_active_chat_message self1 messages1 (active_view s) = (self2, messages2) \<and>
            poll_new_messages self s = Inr (messages2, self2) \<and>
            reads self1 =
              reads self @ map view (filter (\<lambda>c. \<not> isl (process_chat self [] c)) chats) \<and>
            reads self2 = reads self1 @ [active_view s]"
    by blast
  show "\<forall>before c after.
            chats = before @ c # after \<longrightarrow> isl (process_chat self [] c) \<longrightarrow>
            scan_chats self [] chats = scan_chats self [] (before @ after)"
    using scan_chats_skip by blast
  show "\<forall>c \<in> set chats. \<forall>self' messages'.
            (isl (process_chat self' messages' c) \<longleftrightarrow>
               (\<exists>e. click c = Raises e) \<or> wait_bubble c = Raises PlaywrightError \<or>
               (\<exists>e. count_in c = Raises e) \<or> (\<exists>e. count_out c = Raises e) \<or>
               (\<exists>e. count_lexical c = Raises e)) \<and>
            (\<not> isl (process_chat self' messages' c) \<longrightarrow>
               process_chat self' messages' c =
                 Inr (collect_active_chat_message self' messages' (view c)))"
    using process_chat_faults process_chat_no_fault by blast
qed

theorem scan_cycle_isolates_faults_witness:
  "map_sum id fst
     (poll_new_messages ChatService_init
        \<lparr>unread_wait = Returns (),
         unread_rows = Returns
           [\<lparr>click = Returns (), scroll_window = Raises PlaywrightError,
              wait_bubble = Raises PlaywrightTimeoutError, count_in = Returns 1,
              count_out = Returns 0, count_lexical = Returns 0,
              view = \<lparr>conversation = Returns
                        [\<lparr>bubbles = Returns
                            [\<lparr>class_attr = Returns (Some ''message-in''),
                              text_els = (\<lambda>ts. Returns [Returns ''hola''])\<rparr>]\<rparr>],
                      message_region = Returns [], scrollable = Returns []\<rparr>\<rparr>,
            \<lparr>click = Raises PlaywrightError, scroll_window = Returns (),
              wait_bubble = Returns (), count_in = Returns 1,
              count_out = Returns 0, count_lexical = Returns 0,
              view = \<lparr>conversation = Returns
                        [\<lparr>bubbles = Returns
                            [\<lparr>class_attr = Returns (Some ''message-in''),
                              text_els = (\<lambda>ts. Returns [Returns ''lost''])\<rparr>]\<rparr>],
                      message_region = Returns [], scrollable = Returns []\<rparr>\<rparr>,
            \<lparr>click = Returns (), scroll_window = Returns (),
              wait_bubble = Returns (), count_in = Returns 2,
              count_out = Returns 0, count_lexical = Returns 0,
              view = \<lparr>conversation = Returns
                        [\<lparr>bubbles = Returns
                            [\<lparr>class_attr = Returns (Some ''message-in''),
                              text_els = (\<lambda>ts. Returns [Returns ''adios''])\<rparr>]\<rparr>],
                      message_region = Returns [], scrollable = Returns []\<rparr>\<rparr>],
         active_view = \<lparr>conversation = Returns
                        [\<lparr>bubbles = Returns
                            [\<lparr>class_attr = Returns (Some ''message-out''),
                              text_els = (\<lambda>ts. Returns [Returns ''/bot -ping''])\<rparr>]\<rparr>],
                      message_region = Returns [], scrollable = Returns []\<rparr>\<rparr>) =
   Inr [ChatMessage_new ''hola'' False, ChatMessage_new ''adios'' False,
        ChatMessage_new ''/bot -ping'' True]"
proof -
  let ?pg1 = "\<lparr>conversation = Returns
                        [\<lparr>bubbles = Returns
                            [\<lparr>class_attr = Returns (Some ''message-in''),
                              text_els = (\<lambda>ts. Returns [Returns ''hola''])\<rparr>]\<rparr>],
                      message_region = Returns [], scrollable = Returns []\<rparr>"
  let ?pg2 = "\<lparr>conversation = Returns
                        [\<lparr>bubbles = Returns
                            [\<lparr>class_attr = Returns (Some ''message-in''),
                              text_els = (\<lambda>ts. Returns [Returns ''lost''])\<rparr>]\<rparr>],
                      message_region = Returns [], scrollable = Returns []\<rparr>"
  let ?pg3 = "\<lparr>conversation = Returns
                        [\<lparr>bubbles = Returns
                            [\<lparr>class_attr = Returns (Some ''message-in''),
                              text_els = (\<lambda>ts. Returns [Returns ''adios''])\<rparr>]\<rparr>],
                      message_region = Returns [], scrollable = Returns []\<rparr>"
  let ?pga = "\<lparr>conversation = Returns
                        [\<lparr>bubbles = Returns
                            [\<lparr>class_attr = Returns (Some ''message-out''),
                              text_els = (\<lambda>ts. Returns [Returns ''/bot -ping''])\<rparr>]\<rparr>],
                      message_region = Returns [], scrollable = Returns []\<rparr>"
  let ?c1 = "\<lparr>click = Returns (), scroll_window = Raises PlaywrightError,
              wait_bubble = Raises PlaywrightTimeoutError, count_in = Returns 1,
              count_out = Returns 0, count_lexical = Returns 0, view = ?pg1\<rparr>"
  let ?c2 = "\<lparr>click = Raises PlaywrightError, scroll_window = Returns (),
              wait_bubble = Returns (), count_in = Returns 1,
              count_out = Returns 0, count_lexical = Returns 0, view = ?pg2\<rparr>"
  let ?c3 = "\<lparr>click = Returns (), scroll_window = Returns (),
              wait_bubble = Returns (), count_in = Returns 2,
              count_out = Returns 0, count_lexical = Returns 0, view = ?pg3\<rparr>"
  let ?s = "\<lparr>unread_wait = Returns (), unread_rows = Returns [?c1, ?c2, ?c3],
             active_view = ?pga\<rparr>"
  have h: "collect_unread_chats ?s = Inr [?c1, ?c2, ?c3]"
    by (simp add: collect_unread_chats_def)
  have r1: "last_message_text ?pg1 = Some (''hola'', False)" by code_simp
  have r3: "last_message_text ?pg3 = Some (''adios'', False)" by code_simp
  have ra: "last_message_text ?pga = Some (''/bot -ping'', True)" by code_simp
  note cycle = scan_cycle_isolates_faults [OF h, of ChatService_init]
  from cycle obtain self1 messages1 self2 messages2 where
    sc: "scan_chats ChatService_init [] [?c1, ?c2, ?c3] = (self1, messages1)"
    and ca: "collect_active_chat_message self1 messages1 ?pga = (self2, messages2)"
    and pl: "poll_new_messages ChatService_init ?s = Inr (messages2, self2)"
    by auto
  have bad: "isl (process_chat ChatService_init [] ?c2)"
    by (simp add: process_chat_def)
  from cycle have
    "\<forall>before c after. [?c1, ?c2, ?c3] = before @ c # after \<longrightarrow>
       isl (process_chat ChatService_init [] c) \<longrightarrow>
       scan_chats ChatService_init [] [?c1, ?c2, ?c3] =
         scan_chats ChatService_init [] (before @ after)"
    by blast
  then have "[?c1, ?c2, ?c3] = [?c1] @ ?c2 # [?c3] \<longrightarrow>
       isl (process_chat ChatService_init [] ?c2) \<longrightarrow>
       scan_chats ChatService_init [] [?c1, ?c2, ?c3] =
         scan_chats ChatService_init [] ([?c1] @ [?c3])"
    by blast
  with bad have skip: "scan_chats ChatService_init [] [?c1, ?c2, ?c3] =
         scan_chats ChatService_init [] [?c1, ?c3]"
    by simp
  have "snd (scan_chats ChatService_init [] [?c1, ?c3]) =
          [ChatMessage_new ''hola'' False, ChatMessage_new ''adios'' False] \<and>
        last_seen (fst (scan_chats ChatService_init [] [?c1, ?c3])) ''last'' = Some ''adios''"
    by (simp add: process_chat_def read_last_def r1 r3 push_if_new_def ChatService_init_def)
  with skip sc have m1: "messages1 = [ChatMessage_new ''hola'' False, ChatMessage_new ''adios'' False]"
    and l1: "last_seen self1 ''last'' = Some ''adios''"
    by simp_all
  from ca have "messages2 = [ChatMessage_new ''hola'' False, ChatMessage_new ''adios'' False,
        ChatMessage_new ''/bot -ping'' True]"
    by (simp add: collect_active_chat_message_def read_last_def ra push_if_new_def m1 l1)
  with pl show ?thesis by simp
qed

section \<open>A scan cycle as a sequence of reads\<close>

text \<open>
  The messages a cycle returns, and the cache it leaves, are those of pushing its
  successful reads in order: the reads of the unread chats that raise nothing and yield a
  text, then the read of the active chat if it yields one. This is the link between
  \<open>poll_new_messages\<close> and the sequences of reads of \<open>run_cycles\<close>.
\<close>

lemma push_reads_cache_only:
  "last_seen a = last_seen b \<Longrightarrow>
     snd (push_reads a m rs) = snd (push_reads b m rs) \<and>
     last_seen (fst (push_reads a m rs)) = last_seen (fst (push_reads b m rs))"
proof (induction rs arbitrary: a b m)
  case Nil
  then show ?case by simp
next
  case (Cons r rs)
  obtain t fm where r: "r = (t, fm)" by (cases r)
  show ?case
  proof (cases "last_seen a ''last'' = Some t")
    case True
    with Cons.prems Cons.IH [of a b m] show ?thesis by (simp add: r push_if_new_def)
  next
    case False
    let ?a = "a\<lparr>last_seen := (last_seen a)(''last'' \<mapsto> t)\<rparr>"
    let ?b = "b\<lparr>last_seen := (last_seen b)(''last'' \<mapsto> t)\<rparr>"
    have "last_seen ?a = last_seen ?b" using Cons.prems by simp
    from Cons.IH [OF this, of "m @ [ChatMessage_new t fm]"] False Cons.prems
    show ?thesis by (simp add: r push_if_new_def)
  qed
qed

lemma collect_active_pushes:
  "snd (collect_active_chat_message self m p) =
     snd (push_reads self m (case last_message_text p of None \<Rightarrow> [] | Some r \<Rightarrow> [r])) \<and>
   last_seen (fst (collect_active_chat_message self m p)) =
     last_seen (fst (push_reads self m (case last_message_text p of None \<Rightarrow> [] | Some r \<Rightarrow> [r])))"
  by (auto simp: collect_active_chat_message_def read_last_def push_if_new_def
      split: option.splits)

lemma scan_chats_pushes:
  "snd (scan_chats self m chats) =
     snd (push_reads self m
            (List.map_filter (\<lambda>c. last_message_text (view c))
               (filter (\<lambda>c. \<not> isl (process_chat self m c)) chats))) \<and>
   last_seen (fst (scan_chats self m chats)) =
     last_seen (fst (push_reads self m
            (List.map_filter (\<lambda>c. last_message_text (view c))
               (filter (\<lambda>c. \<not> isl (process_chat self m c)) chats))))"
proof (induction chats arbitrary: self m)
  case Nil
  show ?case by (simp add: List.map_filter_simps)
next
  case (Cons c cs)
  show ?case
  proof (cases "isl (process_chat self m c)")
    case True
    then obtain e where "process_chat self m c = Inl e"
      by (cases "process_chat self m c") simp_all
    with True Cons [of self m] show ?thesis by simp
  next
    case False
    let ?one = "case last_message_text (view c) of None \<Rightarrow> [] | Some r \<Rightarrow> [r]"
    let ?rest = "List.map_filter (\<lambda>c. last_message_text (view c))
               (filter (\<lambda>c. \<not> isl (process_chat self m c)) cs)"
    obtain s1 m1 where r: "collect_active_chat_message self m (view c) = (s1, m1)"
      by (cases "collect_active_chat_message self m (view c)")
    have p: "process_chat self m c = Inr (s1, m1)"
      using process_chat_no_fault [OF False] by (simp add: r)
    have f: "(\<lambda>c. \<not> isl (process_chat s1 m1 c)) = (\<lambda>c. \<not> isl (process_chat self m c))"
      using process_chat_fault_any_state by blast
    from collect_active_pushes [of self m "view c"] r have
      m1: "m1 = snd (push_reads self m ?one)"
      and s1: "last_seen s1 = last_seen (fst (push_reads self m ?one))" by simp_all
    have split: "List.map_filter (\<lambda>c. last_message_text (view c))
               (filter (\<lambda>c. \<not> isl (process_chat self m c)) (c # cs)) = ?one @ ?rest"
      using False by (simp add: List.map_filter_simps split: option.splits)
    from push_reads_cache_only [OF s1, of m1 ?rest] Cons [of s1 m1]
    have "snd (scan_chats s1 m1 cs) = snd (push_reads (fst (push_reads self m ?one)) m1 ?rest) \<and>
          last_seen (fst (scan_chats s1 m1 cs)) =
            last_seen (fst (push_reads (fst (push_reads self m ?one)) m1 ?rest))"
      by (simp add: f)
    then show ?thesis
      unfolding split push_reads_append by (simp add: p m1)
  qed
qed

lemma poll_cycle_pushes_reads:
  assumes "collect_unread_chats s = Inr chats"
  shows "\<exists>self'.
           poll_new_messages self s =
             Inr (snd (push_reads self []
                         (List.map_filter (\<lambda>c. last_message_text (view c))
                            (filter (\<lambda>c. \<not> isl (process_chat self [] c)) chats) @
                          (case last_message_text (active_view s) of
                             None \<Rightarrow> [] | Some r \<Rightarrow> [r]))), self') \<and>
           last_seen self' =
             last_seen (fst (push_reads self []
                         (List.map_filter (\<lambda>c. last_message_text (view c))
                            (filter (\<lambda>c. \<not> isl (process_chat self [] c)) chats) @
                          (case last_message_text (active_view s) of
                             None \<Rightarrow> [] | Some r \<Rightarrow> [r]))))"
proof -
  let ?rs = "List.map_filter (\<lambda>c. last_message_text (view c))
               (filter (\<lambda>c. \<not> isl (process_chat self [] c)) chats)"
  let ?one = "case last_message_text (active_view s) of None \<Rightarrow> [] | Some r \<Rightarrow> [r]"
  obtain s1 m1 where 1: "scan_chats self [] chats = (s1, m1)"
    by (cases "scan_chats self [] chats")
  obtain s2 m2 where 2: "collect_active_chat_message s1 m1 (active_view s) = (s2, m2)"
    by (cases "collect_active_chat_message s1 m1 (active_view s)")
  have 3: "poll_new_messages self s = Inr (m2, s2)"
    using poll_new_messages_result [OF assms, of self] by (simp add: 1 2)
  from scan_chats_pushes [of self "[]" chats] 1 have
    m1: "m1 = snd (push_reads self [] ?rs)"
    and s1: "last_seen s1 = last_seen (fst (push_reads self [] ?rs))" by simp_all
  from collect_active_pushes [of s1 m1 "active_view s"] 2 have
    m2: "m2 = snd (push_reads s1 m1 ?one)"
    and s2: "last_seen s2 = last_seen (fst (push_reads s1 m1 ?one))" by simp_all
  from push_reads_cache_only [OF s1, of m1 ?one] m2 s2 have
    "m2 = snd (push_reads self [] (?rs @ ?one))"
    "last_seen s2 = last_seen (fst (push_reads self [] (?rs @ ?one)))"
    unfolding push_reads_append by (simp_all add: m1)
  with 3 show ?thesis by blast
qed

section \<open>Properties of the login wait\<close>

lemma poll_once_unseen:
  assumes "chat_list scr i = Raises PlaywrightTimeoutError"
    and "qr_code scr i \<noteq> Raises PlaywrightError"
  shows "poll_once self scr i =
           ([Wait_chat_list 3000, Wait_qr_code 1000, Sleep (poll_interval self)], Again)"
  using assms
  by (auto simp: poll_once_def is_logged_in_def qr_visible_def
      split: outcome.splits exn.splits)

lemma wait_loop_step:
  assumes "clock scr (Suc i) < deadline"
    and "chat_list scr i = Raises PlaywrightTimeoutError"
    and "qr_code scr i \<noteq> Raises PlaywrightError"
  shows "wait_loop self scr deadline i calls =
           wait_loop self scr deadline (Suc i)
             (calls @ [Time (clock scr (Suc i)), Wait_chat_list 3000, Wait_qr_code 1000,
                       Sleep (poll_interval self)])"
  using assms(1) poll_once_unseen [OF assms(2,3), of self]
  by (subst wait_loop.simps) simp

lemma wait_loop_polls:
  assumes "i \<le> k"
    and "\<forall>j. i \<le> j \<and> j < k \<longrightarrow>
           clock scr (Suc j) < deadline \<and> chat_list scr j = Raises PlaywrightTimeoutError \<and>
           qr_code scr j \<noteq> Raises PlaywrightError"
  shows "wait_loop self scr deadline i calls =
           wait_loop self scr deadline k
             (calls @ concat (map (\<lambda>j. [Time (clock scr (Suc j)), Wait_chat_list 3000,
                                         Wait_qr_code 1000, Sleep (poll_interval self)])
                               [i..<k]))"
  using assms
proof (induction k rule: dec_induct)
  case base
  show ?case by simp
next
  case (step n)
  from step.prems step.hyps have
    "\<forall>j. i \<le> j \<and> j < n \<longrightarrow>
           clock scr (Suc j) < deadline \<and> chat_list scr j = Raises PlaywrightTimeoutError \<and>
           qr_code scr j \<noteq> Raises PlaywrightError"
    by simp
  from step.IH [OF this] have
    1: "wait_loop self scr deadline i calls =
           wait_loop self scr deadline n
             (calls @ concat (map (\<lambda>j. [Time (clock scr (Suc j)), Wait_chat_list 3000,
                                         Wait_qr_code 1000, Sleep (poll_interval self)])
                               [i..<n]))" .
  from step.prems step.hyps have
    2: "clock scr (Suc n) < deadline" "chat_list scr n = Raises PlaywrightTimeoutError"
       "qr_code scr n \<noteq> Raises PlaywrightError"
    by simp_all
  show ?case
    unfolding 1 using step.hyps by (subst wait_loop_step [OF 2]) simp
qed

lemma wait_loop_returns:
  assumes "\<not> clock scr (Suc k) < deadline" and "i \<le> k"
  shows "\<exists>r. wait_loop self scr deadline i calls = Some r"
  using assms(2)
proof (induction "k - i" arbitrary: i calls)
  case 0
  then have "i = k" by simp
  with assms(1) show ?case by (subst wait_loop.simps) simp
next
  case (Suc d)
  show ?case
  proof (cases "clock scr (Suc i) < deadline")
    case False
    then show ?thesis by (subst wait_loop.simps) simp
  next
    case True
    show ?thesis
    proof (cases "snd (poll_once self scr i)")
      case (Finished r)
      with True show ?thesis by (subst wait_loop.simps) simp
    next
      case Again
      from Suc.hyps(2) have "d = k - Suc i" and "Suc i \<le> k" by simp_all
      from Suc.hyps(1) [OF this] obtain r where
        "wait_loop self scr deadline (Suc i)
           (calls @ Time (clock scr (Suc i)) # fst (poll_once self scr i)) = Some r"
        by blast
      with True Again show ?thesis by (subst wait_loop.simps) simp
    qed
  qed
qed

lemma ensure_session_returns:
  assumes "\<not> clock scr (Suc k) < clock scr 0 + login_timeout self"
  shows "\<exists>r. ensure_session self scr = Some r"
proof -
  from wait_loop_returns [OF assms, of 0 self] obtain calls r where
    "wait_loop self scr (clock scr 0 + login_timeout self) 0
       ([Bring_to_front] @ [Time (clock scr 0)]) = Some (calls, r)"
    by fastforce
  then show ?thesis
    by (auto simp: ensure_session_def wait_for_login_def
        split: outcome.splits sum.splits bool.splits)
qed

lemma wait_for_login_polls:
  assumes "\<forall>j < k. clock scr (Suc j) < clock scr 0 + login_timeout self \<and>
             chat_list scr j = Raises PlaywrightTimeoutError \<and>
             qr_code scr j \<noteq> Raises PlaywrightError"
  shows "wait_for_login self scr [Bring_to_front] =
           wait_loop self scr (clock scr 0 + login_timeout self) k
             (Bring_to_front # Time (clock scr 0) #
              concat (map (\<lambda>j. [Time (clock scr (Suc j)), Wait_chat_list 3000,
                                 Wait_qr_code 1000, Sleep (poll_interval self)]) [0..<k]))"
  unfolding wait_for_login_def
  using wait_loop_polls [of 0 k scr "clock scr 0 + login_timeout self" self
      "[Bring_to_front] @ [Time (clock scr 0)]"] assms
  by simp

text \<open>
  C5, as stated, fails. With a poll interval of 2 s and a login timeout of 7 s, on a page
  that never shows the chat list or the QR code, a poll lasts 3 s + 1 s + 2 s, so the
  clock reads 0 s, 6 s and 12 s at the tests of the loop (times in milliseconds): the
  error is raised at the reading 12 s, 5 s after the deadline, and it carries the poll
  count 2 and the configured 7 s, not the 12 s that have passed.
\<close>

theorem ensure_session_counterexample:
  "ensure_session \<lparr>poll_interval = 2000, login_timeout = (7000 :: nat)\<rparr>
     \<lparr>bring_to_front = Returns (), clock = (\<lambda>i. (i - 1) * 6000),
      chat_list = (\<lambda>i. Raises PlaywrightTimeoutError),
      qr_code = (\<lambda>i. Raises PlaywrightTimeoutError)\<rparr> =
   Some ([Bring_to_front, Time 0, Time 0, Wait_chat_list 3000, Wait_qr_code 1000, Sleep 2000,
          Time 6000, Wait_chat_list 3000, Wait_qr_code 1000, Sleep 2000, Time 12000],
         Inl (LoginTimedOut 2 7000))"
  by (simp add: ensure_session_def wait_for_login_def wait_loop.simps poll_once_def
      is_logged_in_def qr_visible_def)

text \<open>
  C5, amended. \<open>ensure_session\<close> first brings the page to the front; a fault there ends
  it at once with that fault. It then reads the clock, takes that value plus the
  configured timeout as the deadline, and repeats: read the clock and, if the value is
  before the deadline, wait up to 3 s for the chat list; if the wait times out, wait up to
  1 s for the QR code and sleep the poll interval. As long as the clock is before the
  deadline, the chat list is not observed and the wait for the QR code raises nothing but
  its timeout, the polls follow one another like this. At the first poll that breaks this
  pattern:
  \<^item> if the clock is before the deadline and the chat list is observed (on the first poll
    in particular), the loop ends without the deadline being reached, the chat list is
    waited for once more, and the function returns successfully when that wait observes it
    too (it fails with the session error when that wait times out);
  \<^item> if the clock is not before the deadline, the function fails with the login timeout
    error, which carries the number of polls made and the configured timeout, not the
    elapsed time; the value of the clock one full poll earlier (both waits and the sleep)
    was still before the deadline, so the failure can come later than one poll interval
    after the deadline;
  \<^item> if a wait raises a fault other than its timeout, the function fails with that fault.
  The function returns whenever some value of the clock is not before the deadline.
\<close>

theorem ensure_session_contract:
  fixes self :: "'t::{ord,plus} SessionManager" and scr :: "'t screen" and k :: nat
  defines "deadline \<equiv> clock scr 0 + login_timeout self"
    and "polls \<equiv> Bring_to_front # Time (clock scr 0) #
           concat (map (\<lambda>j. [Time (clock scr (Suc j)), Wait_chat_list 3000,
                              Wait_qr_code 1000, Sleep (poll_interval self)]) [0..<k])"
  shows
  "(bring_to_front scr = Raises e \<longrightarrow>
      ensure_session self scr = Some ([Bring_to_front], Inl (SurfaceFault e))) \<and>
   ((\<exists>n. \<not> clock scr (Suc n) < deadline) \<longrightarrow> (\<exists>r. ensure_session self scr = Some r)) \<and>
   (bring_to_front scr = Returns () \<longrightarrow>
    (\<forall>j < k. clock scr (Suc j) < deadline \<and>
       chat_list scr j = Raises PlaywrightTimeoutError \<and>
       qr_code scr j \<noteq> Raises PlaywrightError) \<longrightarrow>
      (clock scr (Suc k) < deadline \<longrightarrow> chat_list scr k = Returns () \<longrightarrow>
         ensure_session self scr =
           Some (polls @ [Time (clock scr (Suc k)), Wait_chat_list 3000, Wait_chat_list 3000],
                 case chat_list scr (Suc k) of
                   Returns _ \<Rightarrow> Inr ()
                 | Raises PlaywrightTimeoutError \<Rightarrow> Inl SessionNotEstablished
                 | Raises PlaywrightError \<Rightarrow> Inl (SurfaceFault PlaywrightError))) \<and>
      (\<not> clock scr (Suc k) < deadline \<longrightarrow>
         ensure_session self scr =
           Some (polls @ [Time (clock scr (Suc k))],
                 Inl (LoginTimedOut k (login_timeout self)))) \<and>
      (clock scr (Suc k) < deadline \<longrightarrow> chat_list scr k = Raises PlaywrightError \<longrightarrow>
         ensure_session self scr =
           Some (polls @ [Time (clock scr (Suc k)), Wait_chat_list 3000],
                 Inl (SurfaceFault PlaywrightError))) \<and>
      (clock scr (Suc k) < deadline \<longrightarrow> chat_list scr k = Raises PlaywrightTimeoutError \<longrightarrow>
       qr_code scr k = Raises PlaywrightError \<longrightarrow>
         ensure_session self scr =
           Some (polls @ [Time (clock scr (Suc k)), Wait_chat_list 3000, Wait_qr_code 1000],
                 Inl (SurfaceFault PlaywrightError))))"
proof (intro conjI impI)
  show "ensure_session self scr = Some ([Bring_to_front], Inl (SurfaceFault e))"
    if "bring_to_front scr = Raises e"
    using that by (simp add: ensure_session_def)
  show "\<exists>r. ensure_session self scr = Some r" if "\<exists>n. \<not> clock scr (Suc n) < deadline"
    using that ensure_session_returns unfolding deadline_def by blast
next
  assume f: "bring_to_front scr = Returns ()"
    and u: "\<forall>j < k. clock scr (Suc j) < deadline \<and>
       chat_list scr j = Raises PlaywrightTimeoutError \<and>
       qr_code scr j \<noteq> Raises PlaywrightError"
  have w: "wait_for_login self scr [Bring_to_front] = wait_loop self scr deadline k polls"
    using wait_for_login_polls [of k scr self] u unfolding deadline_def polls_def by blast
  show "ensure_session self scr =
           Some (polls @ [Time (clock scr (Suc k)), Wait_chat_list 3000, Wait_chat_list 3000],
                 case chat_list scr (Suc k) of
                   Returns _ \<Rightarrow> Inr ()
                 | Raises PlaywrightTimeoutError \<Rightarrow> Inl SessionNotEstablished
                 | Raises PlaywrightError \<Rightarrow> Inl (SurfaceFault PlaywrightError))"
    if "clock scr (Suc k) < deadline" and "chat_list scr k = Returns ()"
  proof -
    have "wait_loop self scr deadline k polls =
            Some (polls @ [Time (clock scr (Suc k)), Wait_chat_list 3000], Inr (Suc k))"
      using that by (subst wait_loop.simps) (simp add: poll_once_def is_logged_in_def)
    then show ?thesis
      using f w by (simp add: ensure_session_def is_logged_in_def
          split: outcome.splits exn.splits)
  qed
  show "ensure_session self scr =
           Some (polls @ [Time (clock scr (Suc k))],
                 Inl (LoginTimedOut k (login_timeout self)))"
    if "\<not> clock scr (Suc k) < deadline"
  proof -
    have "wait_loop self scr deadline k polls =
            Some (polls @ [Time (clock scr (Suc k))], Inl (LoginTimedOut k (login_timeout self)))"
      using that by (subst wait_loop.simps) simp
    then show ?thesis using f w by (simp add: ensure_session_def)
  qed
  show "ensure_session self scr =
           Some (polls @ [Time (clock scr (Suc k)), Wait_chat_list 3000],
                 Inl (SurfaceFault PlaywrightError))"
    if "clock scr (Suc k) < deadline" and "chat_list scr k = Raises PlaywrightError"
  proof -
    have "wait_loop self scr deadline k polls =
            Some (polls @ [Time (clock scr (Suc k)), Wait_chat_list 3000],
                  Inl (SurfaceFault PlaywrightError))"
      using that by (subst wait_loop.simps) (simp add: poll_once_def is_logged_in_def)
    then show ?thesis using f w by (simp add: ensure_session_def)
  qed
  show "ensure_session self scr =
           Some (polls @ [Time (clock scr (Suc k)), Wait_chat_list 3000, Wait_qr_code 1000],
                 Inl (SurfaceFault PlaywrightError))"
    if "clock scr (Suc k) < deadline" and "chat_list scr k = Raises PlaywrightTimeoutError"
      and "qr_code scr k = Raises PlaywrightError"
  proof -
    have "wait_loop self scr deadline k polls =
            Some (polls @ [Time (clock scr (Suc k)), Wait_chat_list 3000, Wait_qr_code 1000],
                  Inl (SurfaceFault PlaywrightError))"
      using that
      by (subst wait_loop.simps) (simp add: poll_once_def is_logged_in_def qr_visible_def)
    then show ?thesis using f w by (simp add: ensure_session_def)
  qed
qed

theorem ensure_session_contract_witness:
  "ensure_session \<lparr>poll_interval = 2000, login_timeout = (120000 :: nat)\<rparr>
     \<lparr>bring_to_front = Returns (), clock = (\<lambda>i. (i - 1) * 6000),
      chat_list = (\<lambda>i. if i < 2 then Raises PlaywrightTimeoutError else Returns ()),
      qr_code = (\<lambda>i. Returns ())\<rparr> =
     Some ([Bring_to_front, Time 0, Time 0, Wait_chat_list 3000, Wait_qr_code 1000, Sleep 2000,
            Time 6000, Wait_chat_list 3000, Wait_qr_code 1000, Sleep 2000,
            Time 12000, Wait_chat_list 3000, Wait_chat_list 3000], Inr ()) \<and>
   ensure_session \<lparr>poll_interval = 2000, login_timeout = (120000 :: nat)\<rparr>
     \<lparr>bring_to_front = Returns (), clock = (\<lambda>i. (i - 1) * 6000),
      chat_list = (\<lambda>i. Returns ()), qr_code = (\<lambda>i. Returns ())\<rparr> =
     Some ([Bring_to_front, Time 0, Time 0, Wait_chat_list 3000, Wait_chat_list 3000], Inr ()) \<and>
   ensure_session \<lparr>poll_interval = 2000, login_timeout = (10000 :: nat)\<rparr>
     \<lparr>bring_to_front = Returns (), clock = (\<lambda>i. (i - 1) * 6000),
      chat_list = (\<lambda>i. Raises PlaywrightTimeoutError),
      qr_code = (\<lambda>i. Raises PlaywrightTimeoutError)\<rparr> =
     Some ([Bring_to_front, Time 0, Time 0, Wait_chat_list 3000, Wait_qr_code 1000, Sleep 2000,
            Time 6000, Wait_chat_list 3000, Wait_qr_code 1000, Sleep 2000,
            Time 12000], Inl (LoginTimedOut 2 10000))"
proof -
  let ?m = "\<lparr>poll_interval = 2000, login_timeout = (120000 :: nat)\<rparr>"
  let ?late = "\<lparr>bring_to_front = Returns (), clock = (\<lambda>i. (i - 1) * 6000),
      chat_list = (\<lambda>i. if i < 2 then Raises PlaywrightTimeoutError else Returns ()),
      qr_code = (\<lambda>i. Returns ())\<rparr> :: nat screen"
  let ?first = "\<lparr>bring_to_front = Returns (), clock = (\<lambda>i. (i - 1) * 6000),
      chat_list = (\<lambda>i. Returns ()), qr_code = (\<lambda>i. Returns ())\<rparr> :: nat screen"
  let ?short = "\<lparr>poll_interval = 2000, login_timeout = (10000 :: nat)\<rparr>"
  let ?never = "\<lparr>bring_to_front = Returns (), clock = (\<lambda>i. (i - 1) * 6000),
      chat_list = (\<lambda>i. Raises PlaywrightTimeoutError),
      qr_code = (\<lambda>i. Raises PlaywrightTimeoutError)\<rparr> :: nat screen"
  have up: "[0..<2] = [0, Suc 0]" by (simp add: upt_rec)
  have two: "\<And>P. (\<forall>j<2::nat. P j) = (P 0 \<and> P (Suc 0))"
    by (auto simp: less_Suc_eq numeral_2_eq_2)
  have 1: "ensure_session ?m ?late =
     Some ([Bring_to_front, Time 0, Time 0, Wait_chat_list 3000, Wait_qr_code 1000, Sleep 2000,
            Time 6000, Wait_chat_list 3000, Wait_qr_code 1000, Sleep 2000,
            Time 12000, Wait_chat_list 3000, Wait_chat_list 3000], Inr ())"
    using ensure_session_contract [of ?late _ ?m 2] by (simp add: up two)
  have 2: "ensure_session ?m ?first =
     Some ([Bring_to_front, Time 0, Time 0, Wait_chat_list 3000, Wait_chat_list 3000], Inr ())"
    using ensure_session_contract [of ?first _ ?m 0] by simp
  have 3: "ensure_session ?short ?never =
     Some ([Bring_to_front, Time 0, Time 0, Wait_chat_list 3000, Wait_qr_code 1000, Sleep 2000,
            Time 6000, Wait_chat_list 3000, Wait_qr_code 1000, Sleep 2000,
            Time 12000], Inl (LoginTimedOut 2 10000))"
    using ensure_session_contract [of ?never _ ?short 2] by (simp add: up two)
  from 1 2 3 show ?thesis by blast
qed

end
